theory Spec2Isabelle
  imports Main "HOL-Library.Word"
begin

unbundle bit_operations_syntax

section \<open>Bytes, slices and packing\<close>

type_synonym byte = "8 word"
type_synonym bytes = "byte list"

text \<open>
  The exceptions \<open>merge_binaries\<close> can raise: a source that cannot be opened, a destination
  that cannot be opened for writing, \<open>struct.error\<close> from \<open>struct.pack\<close> and
  \<open>struct.pack_into\<close>, the \<open>assert\<close> of \<open>generate_aio_header\<close>, and a missing
  dictionary key.
\<close>

datatype error =
    SourceReadError string
  | DestinationWriteError string
  | StructError
  | AssertionError
  | KeyError

text \<open>
  Python slice bounds on a sequence of length \<open>n\<close>: a negative bound counts from the end,
  and every bound is clamped to \<open>[0, n]\<close>.
\<close>

definition slice_index :: "nat \<Rightarrow> int \<Rightarrow> nat" where
  "slice_index n i = (if i < 0 then nat (max 0 (int n + i)) else min n (nat i))"

text \<open>\<open>buf[lo:hi]\<close>\<close>

definition get_slice :: "bytes \<Rightarrow> int \<Rightarrow> int \<Rightarrow> bytes" where
  "get_slice buf lo hi =
     (let l = slice_index (length buf) lo; h = slice_index (length buf) hi
      in take (h - l) (drop l buf))"

text \<open>\<open>buf[lo:hi] = v\<close> on a bytearray: the slice is replaced by \<open>v\<close>, whatever its length.\<close>

definition set_slice :: "bytes \<Rightarrow> int \<Rightarrow> int \<Rightarrow> bytes \<Rightarrow> bytes" where
  "set_slice buf lo hi v =
     (let l = slice_index (length buf) lo; h = max l (slice_index (length buf) hi)
      in take l buf @ v @ drop h buf)"

text \<open>
  \<open>struct.pack\<close> with the formats \<open><B\<close>, \<open><H\<close> and \<open><I\<close>: little-endian, unsigned, and
  \<open>struct.error\<close> when the value does not fit.
\<close>

definition pack_B :: "int \<Rightarrow> error + bytes" where
  "pack_B v = (if 0 \<le> v \<and> v \<le> 0xFF then Inr [word_of_int v] else Inl StructError)"

definition pack_H :: "int \<Rightarrow> error + bytes" where
  "pack_H v =
     (if 0 \<le> v \<and> v \<le> 0xFFFF
      then Inr [word_of_int v, word_of_int (v div 0x100)]
      else Inl StructError)"

definition pack_I :: "int \<Rightarrow> error + bytes" where
  "pack_I v =
     (if 0 \<le> v \<and> v \<le> 0xFFFFFFFF
      then Inr [word_of_int v, word_of_int (v div 0x100),
                word_of_int (v div 0x10000), word_of_int (v div 0x1000000)]
      else Inl StructError)"

text \<open>\<open>struct.pack_into(fmt, buffer, offset, v)\<close> for a buffer that holds the field.\<close>

definition pack_into_H :: "bytes \<Rightarrow> int \<Rightarrow> int \<Rightarrow> error + bytes" where
  "pack_into_H buf ofs v =
     (case pack_H v of Inl e \<Rightarrow> Inl e
      | Inr b \<Rightarrow> if ofs + 2 \<le> int (length buf) then Inr (set_slice buf ofs (ofs + 2) b)
                 else Inl StructError)"

definition pack_into_I :: "bytes \<Rightarrow> int \<Rightarrow> int \<Rightarrow> error + bytes" where
  "pack_into_I buf ofs v =
     (case pack_I v of Inl e \<Rightarrow> Inl e
      | Inr b \<Rightarrow> if ofs + 4 \<le> int (length buf) then Inr (set_slice buf ofs (ofs + 4) b)
                 else Inl StructError)"

text \<open>\<open>struct.unpack\<close> with \<open><H\<close> and \<open><I\<close>, as the repository's test reads the headers back.\<close>

fun unpack_le :: "bytes \<Rightarrow> int" where
  "unpack_le [] = 0"
| "unpack_le (b # bs) = uint b + 0x100 * unpack_le bs"

section \<open>CRC-32\<close>

text \<open>
  \<open>binascii.crc32\<close> is the CRC-32 of zlib: reflected polynomial \<open>CRC32_POLY = 0xEDB88320\<close>,
  initial value and final XOR \<open>0xFFFFFFFF\<close>, one bit at a time.
\<close>

definition CRC32_POLY :: "32 word" where
  "CRC32_POLY = 0xEDB88320"

definition crc32_bit :: "32 word \<Rightarrow> 32 word" where
  "crc32_bit c = (if c AND 1 = 1 then drop_bit 1 c XOR CRC32_POLY else drop_bit 1 c)"

definition crc32_byte :: "byte \<Rightarrow> 32 word \<Rightarrow> 32 word" where
  "crc32_byte b c =
     crc32_bit (crc32_bit (crc32_bit (crc32_bit
       (crc32_bit (crc32_bit (crc32_bit (crc32_bit (c XOR ucast b))))))))"

definition binascii_crc32 :: "bytes \<Rightarrow> int" where
  "binascii_crc32 d = uint (fold crc32_byte d 0xFFFFFFFF XOR 0xFFFFFFFF)"

definition calculate_crc32 :: "bytes \<Rightarrow> int" where
  "calculate_crc32 d = binascii_crc32 d AND 0xFFFFFFFF"

section \<open>Headers\<close>

definition AIO_MAGIC :: bytes where
  "AIO_MAGIC = [0x41, 0x49, 0x4F, 0x48]"

definition ELAN_VENDOR_ID :: int where
  "ELAN_VENDOR_ID = 0x04F3"

definition ELAN_PRODUCT_ID :: bytes where
  "ELAN_PRODUCT_ID = [0x08, 0x56]"

definition generate_aio_header :: "int \<Rightarrow> error + bytes" where
  "generate_aio_header fw_count =
     (let total_header_size = 0x20 + fw_count * 0x50;
          magic = AIO_MAGIC;
          version = [0x01, 0x00]
      in case pack_H total_header_size of Inl e \<Rightarrow> Inl e
         | Inr header_size \<Rightarrow>
             (let dev_type = [0x01];
                  fw_version = [0x78, 0x56, 0x34, 0x12];
                  update_ctrl = [0x00]
              in case pack_B fw_count of Inl e \<Rightarrow> Inl e
                 | Inr fw_count_byte \<Rightarrow>
                     (let reserved = replicate 17 0xFF;
                          header = magic @ version @ header_size @ dev_type @ fw_version
                                   @ update_ctrl @ fw_count_byte @ reserved
                      in if length header = 0x20 then Inr header else Inl AssertionError)))"

definition generate_elan_header :: "int \<Rightarrow> int \<Rightarrow> int \<Rightarrow> error + bytes" where
  "generate_elan_header fw_offset fw_size crc32_val =
     (let header = replicate 0x50 0x00
      in case pack_into_H header 0x0000 ELAN_VENDOR_ID of Inl e \<Rightarrow> Inl e
         | Inr header \<Rightarrow>
      (let header = set_slice header 0x0022 0x0024 ELAN_PRODUCT_ID;
           header = set_slice header 0x0024 0x0026 [0xFF, 0xFF];
           header = set_slice header 0x0026 0x0028 [0x34, 0x12]
       in case pack_into_I header 0x0028 fw_offset of Inl e \<Rightarrow> Inl e
          | Inr header \<Rightarrow>
       (case pack_into_I header 0x002C fw_size of Inl e \<Rightarrow> Inl e
          | Inr header \<Rightarrow>
       (case pack_into_I header 0x0030 crc32_val of Inl e \<Rightarrow> Inl e
          | Inr header \<Rightarrow>
        Inr (fold (\<lambda>i h. h[i := 0xFF]) [0x40 ..< 0x50] header)))))"

section \<open>The file system\<close>

text \<open>
  The files \<open>merge_binaries\<close> can see: the content of every path that can be opened for
  reading, and the paths that can be opened for writing.
\<close>

record world =
  files :: "string \<rightharpoonup> bytes"
  writable :: "string \<Rightarrow> bool"

text \<open>\<open>with open(filepath, "rb") as f: data = f.read()\<close>\<close>

definition read_file :: "world \<Rightarrow> string \<Rightarrow> error + bytes" where
  "read_file w filepath =
     (case files w filepath of None \<Rightarrow> Inl (SourceReadError filepath) | Some d \<Rightarrow> Inr d)"

text \<open>\<open>with open(output_filepath, "wb") as f: f.write(final_bin)\<close>\<close>

definition write_file :: "world \<Rightarrow> string \<Rightarrow> bytes \<Rightarrow> error + world" where
  "write_file w filepath d =
     (if writable w filepath then Inr (w\<lparr>files := (files w)(filepath \<mapsto> d)\<rparr>)
      else Inl (DestinationWriteError filepath))"

section \<open>The merge\<close>

text \<open>An element of \<open>targets\<close>: \<open>{"path": ..., "offset": ...}\<close>, the offset \<open>None\<close> or an integer.\<close>

record target =
  path :: string
  offset :: "int option"

text \<open>
  An element of \<open>fw_data_list\<close>: \<open>{"data": ..., "offset": ..., "size": ...}\<close>, and the key
  \<open>"crc"\<close> once step 3 has set it.
\<close>

record fw =
  fw_data :: bytes
  fw_offset :: int
  fw_size :: int
  fw_crc :: "int option"

text \<open>
  Step 1, the loop over \<open>targets\<close>, with \<open>current_offset\<close> as an argument. The first source
  that cannot be read ends it.
\<close>

fun gather :: "world \<Rightarrow> int \<Rightarrow> int \<Rightarrow> target list \<Rightarrow> error + fw list" where
  "gather w total_header_size current_offset [] = Inr []"
| "gather w total_header_size current_offset (t # ts) =
     (case read_file w (path t) of Inl e \<Rightarrow> Inl e
      | Inr d \<Rightarrow>
          (let ofs = (case offset t of
                        None \<Rightarrow> max current_offset total_header_size
                      | Some ofs \<Rightarrow> if ofs < total_header_size then total_header_size else ofs);
               sz = int (length d)
           in case gather w total_header_size (ofs + sz) ts of Inl e \<Rightarrow> Inl e
              | Inr fws \<Rightarrow> Inr (\<lparr>fw_data = d, fw_offset = ofs, fw_size = sz, fw_crc = None\<rparr> # fws)))"

text \<open>Step 2: the end of the buffer, the buffer of zeros, and the copy of every payload.\<close>

definition compute_max_end :: "int \<Rightarrow> fw list \<Rightarrow> int" where
  "compute_max_end total_header_size fw_data_list =
     fold (\<lambda>t max_end. let end_pos = fw_offset t + fw_size t
                        in if end_pos > max_end then end_pos else max_end)
          fw_data_list total_header_size"

definition copy_data :: "fw list \<Rightarrow> bytes \<Rightarrow> bytes" where
  "copy_data fw_data_list final_bin =
     fold (\<lambda>t b. let ofs = fw_offset t; sz = fw_size t in set_slice b ofs (ofs + sz) (fw_data t))
          fw_data_list final_bin"

text \<open>Step 3: the checksum of every entry's range of the composed buffer.\<close>

definition set_crcs :: "bytes \<Rightarrow> fw list \<Rightarrow> fw list" where
  "set_crcs final_bin fw_data_list =
     map (\<lambda>t. let ofs = fw_offset t; sz = fw_size t
              in t\<lparr>fw_crc := Some (calculate_crc32 (get_slice final_bin ofs (ofs + sz)))\<rparr>)
         fw_data_list"

text \<open>Step 5: the entry headers, appended in the order of the list.\<close>

fun elan_headers_loop :: "fw list \<Rightarrow> bytes \<Rightarrow> error + bytes" where
  "elan_headers_loop [] elan_headers = Inr elan_headers"
| "elan_headers_loop (t # ts) elan_headers =
     (case fw_crc t of None \<Rightarrow> Inl KeyError
      | Some crc \<Rightarrow>
          (case generate_elan_header (fw_offset t) (fw_size t) crc of Inl e \<Rightarrow> Inl e
           | Inr h \<Rightarrow> elan_headers_loop ts (elan_headers @ h)))"

text \<open>
  The buffer \<open>merge_binaries\<close> writes, and the sizes it returns: steps 2 to 6 on the list that
  step 1 has gathered. \<open>bytearray(max_end)\<close> is a buffer of \<open>max_end\<close> zero bytes, whatever
  its size: running out of memory is not modelled.
\<close>

definition build_image :: "int \<Rightarrow> int \<Rightarrow> fw list \<Rightarrow> error + (bytes \<times> int)" where
  "build_image fw_count total_header_size fw_data_list =
     (let max_end = compute_max_end total_header_size fw_data_list;
          final_bin = replicate (nat max_end) 0x00;
          final_bin = copy_data fw_data_list final_bin;
          fw_data_list = set_crcs final_bin fw_data_list
      in case generate_aio_header fw_count of Inl e \<Rightarrow> Inl e
         | Inr aio_header \<Rightarrow>
             (case elan_headers_loop fw_data_list [] of Inl e \<Rightarrow> Inl e
              | Inr elan_headers \<Rightarrow>
                  Inr (set_slice final_bin 0 total_header_size (aio_header @ elan_headers),
                       max_end)))"

text \<open>
  \<open>merge_binaries(targets, output_filepath)\<close>: the value returned or the exception raised,
  and the file system it leaves.
\<close>

definition merge_binaries :: "world \<Rightarrow> target list \<Rightarrow> string \<Rightarrow> (error + int \<times> int) \<times> world" where
  "merge_binaries w targets output_filepath =
     (let fw_count = int (length targets);
          total_header_size = 0x20 + fw_count * 0x50
      in case gather w total_header_size total_header_size targets of Inl e \<Rightarrow> (Inl e, w)
         | Inr fw_data_list \<Rightarrow>
             (case build_image fw_count total_header_size fw_data_list of Inl e \<Rightarrow> (Inl e, w)
              | Inr (final_bin, max_end) \<Rightarrow>
                  (case write_file w output_filepath final_bin of Inl e \<Rightarrow> (Inl e, w)
                   | Inr w' \<Rightarrow> (Inr (total_header_size, max_end), w'))))"

section \<open>Notions of the specification\<close>

text \<open>
  The value of \<open>current_offset\<close> when the loop of step 1 reaches entry \<open>i\<close>, read off the
  gathered list: the header size before the first entry, then the end of the entry just before.
\<close>

definition previous_end :: "int \<Rightarrow> fw list \<Rightarrow> nat \<Rightarrow> int" where
  "previous_end ths r i =
     (if i = 0 then ths else fw_offset (r ! (i - 1)) + fw_size (r ! (i - 1)))"

text \<open>
  The cursor as the specification describes it: the end of the highest range among the
  entries resolved so far, the header size when there is none.
\<close>

definition highest_end :: "int \<Rightarrow> fw list \<Rightarrow> int" where
  "highest_end ths fws = fold (\<lambda>t m. max m (fw_offset t + fw_size t)) fws ths"

text \<open>The end of an entry's range, and whether a position of the buffer lies in the range.\<close>

definition end_pos :: "fw \<Rightarrow> int" where
  "end_pos t = fw_offset t + fw_size t"

definition covers :: "fw \<Rightarrow> int \<Rightarrow> bool" where
  "covers t p \<longleftrightarrow> fw_offset t \<le> p \<and> p < fw_offset t + fw_size t"

text \<open>
  Reading the headers of a produced file back, as the repository's test does with
  \<open>struct.unpack("<I", data[0x20+0x28:0x20+0x28+4])\<close> and \<open>data[0x0E]\<close>: the fields of the
  container header, and the fields of entry header \<open>i\<close>, which starts at \<open>0x20 + i * 0x50\<close>.
\<close>

definition parse_header_size :: "bytes \<Rightarrow> int" where
  "parse_header_size out = unpack_le (get_slice out 0x06 0x08)"

definition parse_entry_count :: "bytes \<Rightarrow> int" where
  "parse_entry_count out = uint (out ! 0x0E)"

definition parse_entry_offset :: "bytes \<Rightarrow> nat \<Rightarrow> int" where
  "parse_entry_offset out i =
     unpack_le (get_slice out (0x20 + int i * 0x50 + 0x28) (0x20 + int i * 0x50 + 0x28 + 4))"

definition parse_entry_size :: "bytes \<Rightarrow> nat \<Rightarrow> int" where
  "parse_entry_size out i =
     unpack_le (get_slice out (0x20 + int i * 0x50 + 0x2C) (0x20 + int i * 0x50 + 0x2C + 4))"

definition parse_entry_crc :: "bytes \<Rightarrow> nat \<Rightarrow> int" where
  "parse_entry_crc out i =
     unpack_le (get_slice out (0x20 + int i * 0x50 + 0x30) (0x20 + int i * 0x50 + 0x30 + 4))"

section \<open>Example inputs\<close>

text \<open>
  Two sources, the second placed by an explicit offset inside the range of the first:
  with two entries the header size is \<open>0xC0\<close>.
\<close>

definition w_ex :: world where
  "w_ex = \<lparr>files = [''a'' \<mapsto> [0xAA, 0xAA, 0xAA, 0xAA], ''b'' \<mapsto> [0xBB, 0xBB]],
           writable = (\<lambda>p. p = ''out'')\<rparr>"

definition ts_ex :: "target list" where
  "ts_ex = [\<lparr>path = ''a'', offset = None\<rparr>, \<lparr>path = ''b'', offset = Some 0xC1\<rparr>]"

definition r_ex :: "fw list" where
  "r_ex = [\<lparr>fw_data = [0xAA, 0xAA, 0xAA, 0xAA], fw_offset = 0xC0, fw_size = 4, fw_crc = None\<rparr>,
           \<lparr>fw_data = [0xBB, 0xBB], fw_offset = 0xC1, fw_size = 2, fw_crc = None\<rparr>]"

text \<open>The image the merge of the two sources writes, and the file system it leaves.\<close>

definition img_ex :: bytes where
  "img_ex =
  [65, 73, 79, 72, 1, 0, 192, 0, 1, 120, 86, 52, 18, 0, 2, 255, 255, 255,
   255, 255, 255, 255, 255, 255, 255, 255, 255, 255, 255, 255, 255, 255,
   243, 4, 0, 0, 0, 0, 0, 0, 0, 0, 0, 0, 0, 0, 0, 0, 0, 0, 0, 0, 0, 0, 0, 0,
   0, 0, 0, 0, 0, 0, 0, 0, 0, 0, 8, 86, 255, 255, 52, 18, 192, 0, 0, 0, 4,
   0, 0, 0, 9, 10, 171, 251, 0, 0, 0, 0, 0, 0, 0, 0, 0, 0, 0, 0, 255, 255,
   255, 255, 255, 255, 255, 255, 255, 255, 255, 255, 255, 255, 255, 255,
   243, 4, 0, 0, 0, 0, 0, 0, 0, 0, 0, 0, 0, 0, 0, 0, 0, 0, 0, 0, 0, 0, 0, 0,
   0, 0, 0, 0, 0, 0, 0, 0, 0, 0, 8, 86, 255, 255, 52, 18, 193, 0, 0, 0, 2,
   0, 0, 0, 136, 15, 91, 26, 0, 0, 0, 0, 0, 0, 0, 0, 0, 0, 0, 0, 255, 255,
   255, 255, 255, 255, 255, 255, 255, 255, 255, 255, 255, 255, 255, 255,
   170, 187, 187, 170]"

definition w_out :: world where
  "w_out = w_ex\<lparr>files := (files w_ex)(''out'' \<mapsto> img_ex)\<rparr>"

text \<open>The header of the first entry of that image.\<close>

definition hdr_ex :: bytes where
  "hdr_ex =
  [243, 4, 0, 0, 0, 0, 0, 0, 0, 0, 0, 0, 0, 0, 0, 0,
   0, 0, 0, 0, 0, 0, 0, 0, 0, 0, 0, 0, 0, 0, 0, 0,
   0, 0, 8, 86, 255, 255, 52, 18, 192, 0, 0, 0, 4, 0, 0, 0,
   9, 10, 171, 251, 0, 0, 0, 0, 0, 0, 0, 0, 0, 0, 0, 0,
   255, 255, 255, 255, 255, 255, 255, 255, 255, 255, 255, 255, 255, 255, 255, 255]"

text \<open>
  Three sources: a long one at an explicit offset, a short one at an explicit offset inside
  it, and an auto-appended one. With three entries the header size is \<open>0x110\<close>.
\<close>

definition w_cx :: world where
  "w_cx = \<lparr>files = [''a'' \<mapsto> replicate 20 0xAA, ''b'' \<mapsto> replicate 4 0xBB, ''c'' \<mapsto> [0xCC]],
           writable = (\<lambda>p. p = ''out'')\<rparr>"

definition ts_cx :: "target list" where
  "ts_cx = [\<lparr>path = ''a'', offset = Some 0x118\<rparr>, \<lparr>path = ''b'', offset = Some 0x11A\<rparr>,
            \<lparr>path = ''c'', offset = None\<rparr>]"

definition r_cx :: "fw list" where
  "r_cx = [\<lparr>fw_data = replicate 20 0xAA, fw_offset = 0x118, fw_size = 20, fw_crc = None\<rparr>,
           \<lparr>fw_data = replicate 4 0xBB, fw_offset = 0x11A, fw_size = 4, fw_crc = None\<rparr>,
           \<lparr>fw_data = [0xCC], fw_offset = 0x11E, fw_size = 1, fw_crc = None\<rparr>]"

section \<open>Notions of the proofs\<close>

text \<open>
  An entry fits a buffer of \<open>n\<close> bytes when its range lies inside it and its size is the
  length of its payload; a block of bytes is the header of an entry when
  \<open>generate_elan_header\<close> returns it for the entry's offset, size and checksum.
\<close>

definition fits :: "nat \<Rightarrow> fw \<Rightarrow> bool" where
  "fits n t \<longleftrightarrow> 0 \<le> fw_offset t \<and> fw_size t = int (length (fw_data t))
                \<and> fw_offset t + fw_size t \<le> int n"

definition entry_header :: "fw \<Rightarrow> bytes \<Rightarrow> bool" where
  "entry_header t b \<longleftrightarrow>
     (case fw_crc t of None \<Rightarrow> False
      | Some crc \<Rightarrow> generate_elan_header (fw_offset t) (fw_size t) crc = Inr b)"

section \<open>Slices\<close>


lemma slice_index_nonneg: "0 \<le> i \<Longrightarrow> slice_index n i = min n (nat i)"
  by (simp add: slice_index_def)

lemma set_slice_inrange:
  assumes "0 \<le> lo" "lo + int (length v) \<le> int (length buf)"
  shows "set_slice buf lo (lo + int (length v)) v
           = take (nat lo) buf @ v @ drop (nat lo + length v) buf"
proof -
  have a: "slice_index (length buf) lo = nat lo"
    using assms by (simp add: slice_index_nonneg)
  have b: "slice_index (length buf) (lo + int (length v)) = nat lo + length v"
    using assms by (simp add: slice_index_nonneg nat_add_distrib)
  show ?thesis by (simp add: set_slice_def Let_def a b)
qed

lemma length_set_slice:
  assumes "0 \<le> lo" "lo + int (length v) \<le> int (length buf)"
  shows "length (set_slice buf lo (lo + int (length v)) v) = length buf"
  using assms by (simp add: set_slice_inrange)

lemma nth_set_slice:
  assumes "0 \<le> lo" "lo + int (length v) \<le> int (length buf)" "p < length buf"
  shows "set_slice buf lo (lo + int (length v)) v ! p
           = (if nat lo \<le> p \<and> p < nat lo + length v then v ! (p - nat lo) else buf ! p)"
proof -
  have l: "nat lo + length v \<le> length buf" using assms by linarith
  show ?thesis
    using assms l by (auto simp: set_slice_inrange nth_append)
qed

lemma get_slice_inrange:
  assumes "0 \<le> lo" "0 \<le> n" "lo + n \<le> int (length buf)"
  shows "get_slice buf lo (lo + n) = take (nat n) (drop (nat lo) buf)"
proof -
  have a: "slice_index (length buf) lo = nat lo"
    using assms by (simp add: slice_index_nonneg)
  have b: "slice_index (length buf) (lo + n) = nat lo + nat n"
    using assms by (simp add: slice_index_nonneg nat_add_distrib)
  show ?thesis by (simp add: get_slice_def Let_def a b)
qed

lemma gather_length: "gather w ths cur ts = Inr r \<Longrightarrow> length r = length ts"
  by (induction ts arbitrary: cur r) (auto simp: Let_def split: sum.splits)

lemma gather_size:
  "gather w ths cur ts = Inr r \<Longrightarrow> t \<in> set r \<Longrightarrow> fw_size t = int (length (fw_data t))"
  by (induction ts arbitrary: cur r) (auto simp: Let_def split: sum.splits)

lemma gather_offset_ge:
  "gather w ths cur ts = Inr r \<Longrightarrow> t \<in> set r \<Longrightarrow> ths \<le> fw_offset t"
  by (induction ts arbitrary: cur r) (auto simp: Let_def split: sum.splits option.splits)

lemma gather_nth:
  "gather w ths cur ts = Inr r \<Longrightarrow> i < length ts \<Longrightarrow>
     fw_offset (r ! i) =
       (case offset (ts ! i) of
          None \<Rightarrow> max (if i = 0 then cur else fw_offset (r ! (i - 1)) + fw_size (r ! (i - 1))) ths
        | Some ofs \<Rightarrow> if ofs < ths then ths else ofs)"
proof (induction ts arbitrary: cur r i)
  case Nil
  then show ?case by simp
next
  case (Cons t ts)
  then obtain d where d: "read_file w (path t) = Inr d"
    by (auto split: sum.splits)
  define o1 where "o1 = (case offset t of None \<Rightarrow> max cur ths
                          | Some ofs \<Rightarrow> if ofs < ths then ths else ofs)"
  from Cons.prems d obtain r' where
    r': "gather w ths (o1 + int (length d)) ts = Inr r'" and
    r: "r = \<lparr>fw_data = d, fw_offset = o1, fw_size = int (length d), fw_crc = None\<rparr> # r'"
    by (auto simp: Let_def o1_def split: sum.splits)
  show ?case
  proof (cases i)
    case 0
    then show ?thesis by (simp add: r o1_def)
  next
    case (Suc j)
    then have j: "j < length ts" using Cons.prems by simp
    from Cons.IH [OF r' j] show ?thesis
      using Suc by (cases j) (simp_all add: r split: option.splits)
  qed
qed

lemma gather_data:
  "gather w ths cur ts = Inr r \<Longrightarrow> i < length ts \<Longrightarrow>
     files w (path (ts ! i)) = Some (fw_data (r ! i))"
proof (induction ts arbitrary: cur r i)
  case Nil
  then show ?case by simp
next
  case (Cons t ts)
  show ?case
    using Cons.prems Cons.IH
    by (cases i) (auto simp: Let_def read_file_def split: sum.splits option.splits)
qed

lemma gather_unreadable:
  "t \<in> set ts \<Longrightarrow> files w (path t) = None \<Longrightarrow>
     \<exists>p. gather w ths cur ts = Inl (SourceReadError p) \<and> files w p = None \<and> p \<in> path ` set ts"
proof (induction ts arbitrary: cur)
  case Nil
  then show ?case by simp
next
  case (Cons a ts)
  show ?case
  proof (cases "files w (path a)")
    case None
    then show ?thesis by (auto simp: read_file_def)
  next
    case (Some d)
    then have "t \<in> set ts" using Cons.prems by auto
    from Cons.IH [OF this Cons.prems(2)] obtain p where
      "gather w ths ((case offset a of None \<Rightarrow> max cur ths
              | Some ofs \<Rightarrow> if ofs < ths then ths else ofs) + int (length d)) ts
         = Inl (SourceReadError p)" "files w p = None" "p \<in> path ` set ts"
      by blast
    then show ?thesis
      using Some by (simp add: read_file_def Let_def)
  qed
qed

section \<open>Packing and checksums\<close>

lemma calculate_crc32_range: "0 \<le> calculate_crc32 d \<and> calculate_crc32 d \<le> 0xFFFFFFFF"
proof -
  define c where "c = fold crc32_byte d 0xFFFFFFFF XOR (0xFFFFFFFF :: 32 word)"
  have "uint c < 2 ^ 32" using uint_bounded [of c] by simp
  then have u: "uint c \<le> 0xFFFFFFFF" by simp
  have n: "0 \<le> uint c" by simp
  have "0 \<le> uint c AND 0xFFFFFFFF" using n by simp
  moreover have "uint c AND 0xFFFFFFFF \<le> 0xFFFFFFFF"
    by (rule AND_upper2) simp
  ultimately show ?thesis by (simp add: calculate_crc32_def binascii_crc32_def c_def)
qed



lemma uint_byte_of_int: "uint (word_of_int v :: byte) = v mod 0x100"
  by (simp add: uint_word_of_int)

lemma unpack_pack_B:
  assumes "pack_B v = Inr b" shows "length b = 1 \<and> unpack_le b = v"
proof -
  from assms have r: "0 \<le> v" "v \<le> 0xFF" and b: "b = [word_of_int v]"
    by (auto simp: pack_B_def split: if_splits)
  show ?thesis using r by (simp add: b uint_byte_of_int)
qed

lemma unpack_pack_H:
  assumes "pack_H v = Inr b" shows "length b = 2 \<and> unpack_le b = v"
proof -
  from assms have r: "0 \<le> v" "v \<le> 0xFFFF" and b: "b = [word_of_int v, word_of_int (v div 0x100)]"
    by (auto simp: pack_H_def split: if_splits)
  have "v div 0x100 < 0x100" using r by simp
  moreover have "0 \<le> v div 0x100" using r by simp
  ultimately have "(v div 0x100) mod 0x100 = v div 0x100" by simp
  then show ?thesis by (simp add: b uint_byte_of_int)
qed

lemma unpack_pack_I:
  assumes "pack_I v = Inr b" shows "length b = 4 \<and> unpack_le b = v"
proof -
  from assms have r: "0 \<le> v" "v \<le> 0xFFFFFFFF"
    and b: "b = [word_of_int v, word_of_int (v div 0x100),
                 word_of_int (v div 0x10000), word_of_int (v div 0x1000000)]"
    by (auto simp: pack_I_def split: if_splits)
  have "v div 0x1000000 < 0x100" using r by simp
  moreover have "0 \<le> v div 0x1000000" using r by simp
  ultimately have h: "(v div 0x1000000) mod 0x100 = v div 0x1000000" by simp
  have d2: "v div 0x10000 = (v div 0x100) div 0x100"
    by (simp add: div_mult2_eq [symmetric])
  have d3: "v div 0x1000000 = (v div 0x10000) div 0x100"
    by (simp add: div_mult2_eq [symmetric])
  have "unpack_le b = v mod 0x100 + 0x100 * ((v div 0x100) mod 0x100
          + 0x100 * ((v div 0x10000) mod 0x100 + 0x100 * (v div 0x1000000)))"
    by (simp add: b uint_byte_of_int h)
  also have "\<dots> = v"
    unfolding d3 mult_div_mod_eq  d2 by simp
  finally show ?thesis by (simp add: b)
qed

section \<open>The container header\<close>

lemma generate_aio_header_Inr:
  assumes "0 \<le> n" and "n \<le> 0xFF"
  shows "generate_aio_header n =
     Inr ([0x41, 0x49, 0x4F, 0x48, 0x01, 0x00,
           word_of_int (0x20 + n * 0x50), word_of_int ((0x20 + n * 0x50) div 0x100),
           0x01, 0x78, 0x56, 0x34, 0x12, 0x00, word_of_int n] @ replicate 17 0xFF)"
  using assms by (simp add: generate_aio_header_def pack_H_def pack_B_def AIO_MAGIC_def Let_def)

lemma generate_aio_header_Inl:
  assumes "n < 0 \<or> 0xFF < n"
  shows "generate_aio_header n = Inl StructError"
  using assms by (auto simp: generate_aio_header_def pack_H_def pack_B_def Let_def)

lemma pack_I_cases:
  obtains (ok) b0 b1 b2 b3 where "pack_I v = Inr [b0, b1, b2, b3]"
  | (err) "pack_I v = Inl StructError"
  by (cases "0 \<le> v \<and> v \<le> 0xFFFFFFFF") (simp_all add: pack_I_def)

section \<open>The entry header, step by step\<close>

lemma set_slice_const:
  "set_slice buf (numeral a) (numeral b) v =
     take (min (length buf) (numeral a)) buf @ v
       @ drop (max (min (length buf) (numeral a)) (min (length buf) (numeral b))) buf"
  by (simp add: set_slice_def slice_index_def Let_def)

lemma set_slice_0:
  "set_slice buf 0 (numeral b) v = v @ drop (min (length buf) (numeral b)) buf"
  by (simp add: set_slice_def slice_index_def Let_def)

lemma get_slice_const:
  "get_slice buf (numeral a) (numeral b) =
     take (min (length buf) (numeral b) - min (length buf) (numeral a))
          (drop (min (length buf) (numeral a)) buf)"
  by (simp add: get_slice_def slice_index_def Let_def)

lemma get_slice_0:
  "get_slice buf 0 (numeral b) = take (min (length buf) (numeral b)) buf"
  by (simp add: get_slice_def slice_index_def Let_def)

lemma pack_into_I_Inl: "pack_I v = Inl e \<Longrightarrow> pack_into_I buf ofs v = Inl e"
  by (simp add: pack_into_I_def)

lemma elan_stage0:
  "replicate 0x50 (0x00::byte) =
     [0, 0, 0, 0, 0, 0, 0, 0, 0, 0, 0, 0, 0, 0, 0, 0,
      0, 0, 0, 0, 0, 0, 0, 0, 0, 0, 0, 0, 0, 0, 0, 0,
      0, 0, 0, 0, 0, 0, 0, 0, 0, 0, 0, 0, 0, 0, 0, 0,
      0, 0, 0, 0, 0, 0, 0, 0, 0, 0, 0, 0, 0, 0, 0, 0,
      0, 0, 0, 0, 0, 0, 0, 0, 0, 0, 0, 0, 0, 0, 0, 0]"
  by (simp add: numeral_eq_Suc)

lemma elan_stage1:
  "pack_into_H
     [0, 0, 0, 0, 0, 0, 0, 0, 0, 0, 0, 0, 0, 0, 0, 0,
      0, 0, 0, 0, 0, 0, 0, 0, 0, 0, 0, 0, 0, 0, 0, 0,
      0, 0, 0, 0, 0, 0, 0, 0, 0, 0, 0, 0, 0, 0, 0, 0,
      0, 0, 0, 0, 0, 0, 0, 0, 0, 0, 0, 0, 0, 0, 0, 0,
      0, 0, 0, 0, 0, 0, 0, 0, 0, 0, 0, 0, 0, 0, 0, 0] 0x0000 ELAN_VENDOR_ID =
   Inr
     [0xF3, 0x04, 0, 0, 0, 0, 0, 0, 0, 0, 0, 0, 0, 0, 0, 0,
      0, 0, 0, 0, 0, 0, 0, 0, 0, 0, 0, 0, 0, 0, 0, 0,
      0, 0, 0, 0, 0, 0, 0, 0, 0, 0, 0, 0, 0, 0, 0, 0,
      0, 0, 0, 0, 0, 0, 0, 0, 0, 0, 0, 0, 0, 0, 0, 0,
      0, 0, 0, 0, 0, 0, 0, 0, 0, 0, 0, 0, 0, 0, 0, 0]"
  by (simp add: pack_into_H_def pack_H_def ELAN_VENDOR_ID_def set_slice_0)

lemma elan_stage2:
  "set_slice
     [0xF3, 0x04, 0, 0, 0, 0, 0, 0, 0, 0, 0, 0, 0, 0, 0, 0,
      0, 0, 0, 0, 0, 0, 0, 0, 0, 0, 0, 0, 0, 0, 0, 0,
      0, 0, 0, 0, 0, 0, 0, 0, 0, 0, 0, 0, 0, 0, 0, 0,
      0, 0, 0, 0, 0, 0, 0, 0, 0, 0, 0, 0, 0, 0, 0, 0,
      0, 0, 0, 0, 0, 0, 0, 0, 0, 0, 0, 0, 0, 0, 0, 0] 0x0022 0x0024 ELAN_PRODUCT_ID =
     [0xF3, 0x04, 0, 0, 0, 0, 0, 0, 0, 0, 0, 0, 0, 0, 0, 0,
      0, 0, 0, 0, 0, 0, 0, 0, 0, 0, 0, 0, 0, 0, 0, 0,
      0, 0, 0x08, 0x56, 0, 0, 0, 0, 0, 0, 0, 0, 0, 0, 0, 0,
      0, 0, 0, 0, 0, 0, 0, 0, 0, 0, 0, 0, 0, 0, 0, 0,
      0, 0, 0, 0, 0, 0, 0, 0, 0, 0, 0, 0, 0, 0, 0, 0]"
  by (simp add: set_slice_const ELAN_PRODUCT_ID_def)

lemma elan_stage3:
  "set_slice
     [0xF3, 0x04, 0, 0, 0, 0, 0, 0, 0, 0, 0, 0, 0, 0, 0, 0,
      0, 0, 0, 0, 0, 0, 0, 0, 0, 0, 0, 0, 0, 0, 0, 0,
      0, 0, 0x08, 0x56, 0, 0, 0, 0, 0, 0, 0, 0, 0, 0, 0, 0,
      0, 0, 0, 0, 0, 0, 0, 0, 0, 0, 0, 0, 0, 0, 0, 0,
      0, 0, 0, 0, 0, 0, 0, 0, 0, 0, 0, 0, 0, 0, 0, 0] 0x0024 0x0026 [0xFF, 0xFF] =
     [0xF3, 0x04, 0, 0, 0, 0, 0, 0, 0, 0, 0, 0, 0, 0, 0, 0,
      0, 0, 0, 0, 0, 0, 0, 0, 0, 0, 0, 0, 0, 0, 0, 0,
      0, 0, 0x08, 0x56, 0xFF, 0xFF, 0, 0, 0, 0, 0, 0, 0, 0, 0, 0,
      0, 0, 0, 0, 0, 0, 0, 0, 0, 0, 0, 0, 0, 0, 0, 0,
      0, 0, 0, 0, 0, 0, 0, 0, 0, 0, 0, 0, 0, 0, 0, 0]"
  by (simp add: set_slice_const)

lemma elan_stage4:
  "set_slice
     [0xF3, 0x04, 0, 0, 0, 0, 0, 0, 0, 0, 0, 0, 0, 0, 0, 0,
      0, 0, 0, 0, 0, 0, 0, 0, 0, 0, 0, 0, 0, 0, 0, 0,
      0, 0, 0x08, 0x56, 0xFF, 0xFF, 0, 0, 0, 0, 0, 0, 0, 0, 0, 0,
      0, 0, 0, 0, 0, 0, 0, 0, 0, 0, 0, 0, 0, 0, 0, 0,
      0, 0, 0, 0, 0, 0, 0, 0, 0, 0, 0, 0, 0, 0, 0, 0] 0x0026 0x0028 [0x34, 0x12] =
     [0xF3, 0x04, 0, 0, 0, 0, 0, 0, 0, 0, 0, 0, 0, 0, 0, 0,
      0, 0, 0, 0, 0, 0, 0, 0, 0, 0, 0, 0, 0, 0, 0, 0,
      0, 0, 0x08, 0x56, 0xFF, 0xFF, 0x34, 0x12, 0, 0, 0, 0, 0, 0, 0, 0,
      0, 0, 0, 0, 0, 0, 0, 0, 0, 0, 0, 0, 0, 0, 0, 0,
      0, 0, 0, 0, 0, 0, 0, 0, 0, 0, 0, 0, 0, 0, 0, 0]"
  by (simp add: set_slice_const)

lemma elan_stage5:
  "pack_I fo = Inr [a0, a1, a2, a3] \<Longrightarrow>
   pack_into_I
     [0xF3, 0x04, 0, 0, 0, 0, 0, 0, 0, 0, 0, 0, 0, 0, 0, 0,
      0, 0, 0, 0, 0, 0, 0, 0, 0, 0, 0, 0, 0, 0, 0, 0,
      0, 0, 0x08, 0x56, 0xFF, 0xFF, 0x34, 0x12, 0, 0, 0, 0, 0, 0, 0, 0,
      0, 0, 0, 0, 0, 0, 0, 0, 0, 0, 0, 0, 0, 0, 0, 0,
      0, 0, 0, 0, 0, 0, 0, 0, 0, 0, 0, 0, 0, 0, 0, 0] 0x0028 fo =
   Inr
     [0xF3, 0x04, 0, 0, 0, 0, 0, 0, 0, 0, 0, 0, 0, 0, 0, 0,
      0, 0, 0, 0, 0, 0, 0, 0, 0, 0, 0, 0, 0, 0, 0, 0,
      0, 0, 0x08, 0x56, 0xFF, 0xFF, 0x34, 0x12, a0, a1, a2, a3, 0, 0, 0, 0,
      0, 0, 0, 0, 0, 0, 0, 0, 0, 0, 0, 0, 0, 0, 0, 0,
      0, 0, 0, 0, 0, 0, 0, 0, 0, 0, 0, 0, 0, 0, 0, 0]"
  by (simp add: pack_into_I_def set_slice_const)

lemma elan_stage6:
  "pack_I fs = Inr [s0, s1, s2, s3] \<Longrightarrow>
   pack_into_I
     [0xF3, 0x04, 0, 0, 0, 0, 0, 0, 0, 0, 0, 0, 0, 0, 0, 0,
      0, 0, 0, 0, 0, 0, 0, 0, 0, 0, 0, 0, 0, 0, 0, 0,
      0, 0, 0x08, 0x56, 0xFF, 0xFF, 0x34, 0x12, a0, a1, a2, a3, 0, 0, 0, 0,
      0, 0, 0, 0, 0, 0, 0, 0, 0, 0, 0, 0, 0, 0, 0, 0,
      0, 0, 0, 0, 0, 0, 0, 0, 0, 0, 0, 0, 0, 0, 0, 0] 0x002C fs =
   Inr
     [0xF3, 0x04, 0, 0, 0, 0, 0, 0, 0, 0, 0, 0, 0, 0, 0, 0,
      0, 0, 0, 0, 0, 0, 0, 0, 0, 0, 0, 0, 0, 0, 0, 0,
      0, 0, 0x08, 0x56, 0xFF, 0xFF, 0x34, 0x12, a0, a1, a2, a3, s0, s1, s2, s3,
      0, 0, 0, 0, 0, 0, 0, 0, 0, 0, 0, 0, 0, 0, 0, 0,
      0, 0, 0, 0, 0, 0, 0, 0, 0, 0, 0, 0, 0, 0, 0, 0]"
  by (simp add: pack_into_I_def set_slice_const)

lemma elan_stage7:
  "pack_I c = Inr [c0, c1, c2, c3] \<Longrightarrow>
   pack_into_I
     [0xF3, 0x04, 0, 0, 0, 0, 0, 0, 0, 0, 0, 0, 0, 0, 0, 0,
      0, 0, 0, 0, 0, 0, 0, 0, 0, 0, 0, 0, 0, 0, 0, 0,
      0, 0, 0x08, 0x56, 0xFF, 0xFF, 0x34, 0x12, a0, a1, a2, a3, s0, s1, s2, s3,
      0, 0, 0, 0, 0, 0, 0, 0, 0, 0, 0, 0, 0, 0, 0, 0,
      0, 0, 0, 0, 0, 0, 0, 0, 0, 0, 0, 0, 0, 0, 0, 0] 0x0030 c =
   Inr
     [0xF3, 0x04, 0, 0, 0, 0, 0, 0, 0, 0, 0, 0, 0, 0, 0, 0,
      0, 0, 0, 0, 0, 0, 0, 0, 0, 0, 0, 0, 0, 0, 0, 0,
      0, 0, 0x08, 0x56, 0xFF, 0xFF, 0x34, 0x12, a0, a1, a2, a3, s0, s1, s2, s3,
      c0, c1, c2, c3, 0, 0, 0, 0, 0, 0, 0, 0, 0, 0, 0, 0,
      0, 0, 0, 0, 0, 0, 0, 0, 0, 0, 0, 0, 0, 0, 0, 0]"
  by (simp add: pack_into_I_def set_slice_const)

lemma elan_stage8:
  "fold (\<lambda>i h. h[i := 0xFF]) [0x40 ..< 0x50]
     [0xF3, 0x04, 0, 0, 0, 0, 0, 0, 0, 0, 0, 0, 0, 0, 0, 0,
      0, 0, 0, 0, 0, 0, 0, 0, 0, 0, 0, 0, 0, 0, 0, 0,
      0, 0, 0x08, 0x56, 0xFF, 0xFF, 0x34, 0x12, a0, a1, a2, a3, s0, s1, s2, s3,
      c0, c1, c2, c3, 0, 0, 0, 0, 0, 0, 0, 0, 0, 0, 0, 0,
      0, 0, 0, 0, 0, 0, 0, 0, 0, 0, 0, 0, 0, 0, 0, 0] =
     [0xF3, 0x04, 0, 0, 0, 0, 0, 0, 0, 0, 0, 0, 0, 0, 0, 0,
      0, 0, 0, 0, 0, 0, 0, 0, 0, 0, 0, 0, 0, 0, 0, 0,
      0, 0, 0x08, 0x56, 0xFF, 0xFF, 0x34, 0x12, a0, a1, a2, a3, s0, s1, s2, s3,
      c0, c1, c2, c3, 0, 0, 0, 0, 0, 0, 0, 0, 0, 0, 0, 0,
      0xFF, 0xFF, 0xFF, 0xFF, 0xFF, 0xFF, 0xFF, 0xFF, 0xFF, 0xFF, 0xFF, 0xFF, 0xFF, 0xFF, 0xFF, 0xFF]"
  by simp

lemma generate_elan_header_Inr:
  assumes fo: "pack_I fo = Inr [a0, a1, a2, a3]" and fs: "pack_I fs = Inr [s0, s1, s2, s3]"
    and c: "pack_I c = Inr [c0, c1, c2, c3]"
  shows "generate_elan_header fo fs c =
   Inr
     [0xF3, 0x04, 0, 0, 0, 0, 0, 0, 0, 0, 0, 0, 0, 0, 0, 0,
      0, 0, 0, 0, 0, 0, 0, 0, 0, 0, 0, 0, 0, 0, 0, 0,
      0, 0, 0x08, 0x56, 0xFF, 0xFF, 0x34, 0x12, a0, a1, a2, a3, s0, s1, s2, s3,
      c0, c1, c2, c3, 0, 0, 0, 0, 0, 0, 0, 0, 0, 0, 0, 0,
      0xFF, 0xFF, 0xFF, 0xFF, 0xFF, 0xFF, 0xFF, 0xFF, 0xFF, 0xFF, 0xFF, 0xFF, 0xFF, 0xFF, 0xFF, 0xFF]"
  unfolding generate_elan_header_def Let_def elan_stage0 elan_stage1 sum.case
    elan_stage2 elan_stage3 elan_stage4 elan_stage5 [OF fo] elan_stage6 [OF fs]
    elan_stage7 [OF c] elan_stage8 ..

lemma generate_elan_header_Inl:
  assumes "pack_I fo = Inl StructError \<or> pack_I fs = Inl StructError
           \<or> pack_I c = Inl StructError"
  shows "generate_elan_header fo fs c = Inl StructError"
proof (cases fo rule: pack_I_cases)
  case err
  show ?thesis
    unfolding generate_elan_header_def Let_def elan_stage0 elan_stage1 sum.case
      elan_stage2 elan_stage3 elan_stage4 pack_into_I_Inl [OF err] ..
next
  case (ok a0 a1 a2 a3)
  note fo = this
  show ?thesis
  proof (cases fs rule: pack_I_cases)
    case err
    show ?thesis
      unfolding generate_elan_header_def Let_def elan_stage0 elan_stage1 sum.case
        elan_stage2 elan_stage3 elan_stage4 elan_stage5 [OF fo] pack_into_I_Inl [OF err] ..
  next
    case (ok s0 s1 s2 s3)
    note fs = this
    from assms fo fs have err: "pack_I c = Inl StructError" by simp
    show ?thesis
      unfolding generate_elan_header_def Let_def elan_stage0 elan_stage1 sum.case
        elan_stage2 elan_stage3 elan_stage4 elan_stage5 [OF fo] elan_stage6 [OF fs]
        pack_into_I_Inl [OF err] ..
  qed
qed

lemma generate_elan_header_cases:
  assumes "generate_elan_header fo fs c = Inr h"
  obtains a0 a1 a2 a3 s0 s1 s2 s3 c0 c1 c2 c3 where
    "pack_I fo = Inr [a0, a1, a2, a3]" and "pack_I fs = Inr [s0, s1, s2, s3]"
    and "pack_I c = Inr [c0, c1, c2, c3]"
    and "h =
     [0xF3, 0x04, 0, 0, 0, 0, 0, 0, 0, 0, 0, 0, 0, 0, 0, 0,
      0, 0, 0, 0, 0, 0, 0, 0, 0, 0, 0, 0, 0, 0, 0, 0,
      0, 0, 0x08, 0x56, 0xFF, 0xFF, 0x34, 0x12, a0, a1, a2, a3, s0, s1, s2, s3,
      c0, c1, c2, c3, 0, 0, 0, 0, 0, 0, 0, 0, 0, 0, 0, 0,
      0xFF, 0xFF, 0xFF, 0xFF, 0xFF, 0xFF, 0xFF, 0xFF, 0xFF, 0xFF, 0xFF, 0xFF, 0xFF, 0xFF, 0xFF, 0xFF]"
proof -
  have n: "\<not> (pack_I fo = Inl StructError \<or> pack_I fs = Inl StructError
              \<or> pack_I c = Inl StructError)"
    using generate_elan_header_Inl [of fo fs c] assms by auto
  obtain a0 a1 a2 a3 where fo: "pack_I fo = Inr [a0, a1, a2, a3]"
    using n by (cases fo rule: pack_I_cases) auto
  obtain s0 s1 s2 s3 where fs: "pack_I fs = Inr [s0, s1, s2, s3]"
    using n by (cases fs rule: pack_I_cases) auto
  obtain c0 c1 c2 c3 where c: "pack_I c = Inr [c0, c1, c2, c3]"
    using n by (cases c rule: pack_I_cases) auto
  show ?thesis
    using that [OF fo fs c] generate_elan_header_Inr [OF fo fs c] assms by simp
qed

lemma length_generate_elan_header:
  assumes "generate_elan_header fo fs c = Inr h"
  shows "length h = 0x50"
  using assms by (rule generate_elan_header_cases) simp

section \<open>The size of the buffer, and blocks of headers\<close>

lemma compute_max_end_fold:
  "fold (\<lambda>t max_end. let end_pos = fw_offset t + fw_size t
                        in if end_pos > max_end then end_pos else max_end) fws m
     = Max (insert m ((\<lambda>t. fw_offset t + fw_size t) ` set fws))"
proof (induction fws arbitrary: m)
  case Nil
  then show ?case by simp
next
  case (Cons t fws)
  let ?F = "\<lambda>t max_end. let end_pos = fw_offset t + fw_size t
                          in if end_pos > max_end then end_pos else max_end"
  let ?e = "fw_offset t + fw_size t"
  let ?E = "(\<lambda>t. fw_offset t + fw_size t) ` set fws"
  have f: "finite ?E" by simp
  have "fold ?F (t # fws) m = fold ?F fws (max m ?e)"
    by (simp add: Let_def max_def)
  also have "\<dots> = Max (insert (max m ?e) ?E)"
    by (rule Cons.IH)
  also have "\<dots> = Max (insert m (insert ?e ?E))"
    using f by (cases "?E = {}") (simp_all add: max.assoc)
  finally show ?case by simp
qed

lemma compute_max_end_Max:
  "compute_max_end ths fws = Max (insert ths (end_pos ` set fws))"
  by (simp add: compute_max_end_def compute_max_end_fold end_pos_def [abs_def])

lemma compute_max_end_ge: "ths \<le> compute_max_end ths fws"
  by (simp add: compute_max_end_Max)

lemma compute_max_end_end:
  "t \<in> set fws \<Longrightarrow> fw_offset t + fw_size t \<le> compute_max_end ths fws"
proof -
  assume "t \<in> set fws"
  then have "end_pos t \<in> insert ths (end_pos ` set fws)" by simp
  then have "end_pos t \<le> Max (insert ths (end_pos ` set fws))" by (intro Max_ge) simp_all
  then show ?thesis by (simp add: compute_max_end_Max end_pos_def)
qed

lemma drop_concat_blocks:
  "\<forall>b \<in> set blocks. length b = n \<Longrightarrow> i < length blocks \<Longrightarrow>
     drop (i * n) (concat blocks) = blocks ! i @ concat (drop (Suc i) blocks)"
proof (induction blocks arbitrary: i)
  case Nil
  then show ?case by simp
next
  case (Cons b blocks)
  show ?case
  proof (cases i)
    case 0
    then show ?thesis by simp
  next
    case (Suc j)
    with Cons.prems have "drop (j * n) (concat blocks) = blocks ! j @ concat (drop (Suc j) blocks)"
      by (intro Cons.IH) simp_all
    with Cons.prems Suc show ?thesis by simp
  qed
qed

lemma length_concat_blocks:
  "\<forall>b \<in> set blocks. length b = n \<Longrightarrow> length (concat blocks) = length blocks * n"
  by (induction blocks) simp_all

section \<open>Copying the payloads\<close>

lemma copy_data_Nil: "copy_data [] b = b"
  by (simp add: copy_data_def)

lemma copy_data_snoc:
  "copy_data (fws @ [t]) b
     = set_slice (copy_data fws b) (fw_offset t) (fw_offset t + fw_size t) (fw_data t)"
  by (simp add: copy_data_def Let_def)

lemma length_copy_data:
  "\<forall>t \<in> set fws. fits (length b) t \<Longrightarrow> length (copy_data fws b) = length b"
proof (induction fws rule: rev_induct)
  case Nil
  then show ?case by (simp add: copy_data_Nil)
next
  case (snoc t fws)
  then have l: "length (copy_data fws b) = length b" by simp
  from snoc.prems have f: "fits (length b) t" by simp
  then have s: "fw_size t = int (length (fw_data t))" by (simp add: fits_def)
  show ?case
    unfolding copy_data_snoc s
    using f l by (subst length_set_slice) (simp_all add: fits_def)
qed

lemma nth_copy_data_other:
  assumes "\<forall>t \<in> set fws. fits (length b) t" and "p < length b"
    and "\<forall>t \<in> set fws. \<not> covers t (int p)"
  shows "copy_data fws b ! p = b ! p"
  using assms
proof (induction fws rule: rev_induct)
  case Nil
  then show ?case by (simp add: copy_data_Nil)
next
  case (snoc t fws)
  then have ih: "copy_data fws b ! p = b ! p" by simp
  from snoc.prems have f: "fits (length b) t" and n: "\<not> covers t (int p)" by simp_all
  have l: "length (copy_data fws b) = length b"
    using snoc.prems by (intro length_copy_data) simp
  from f have s: "fw_size t = int (length (fw_data t))" by (simp add: fits_def)
  have "copy_data (fws @ [t]) b ! p = copy_data fws b ! p"
    unfolding copy_data_snoc s
    using f n l snoc.prems(2)
    by (subst nth_set_slice) (auto simp: fits_def covers_def)
  with ih show ?case by simp
qed

lemma nth_copy_data:
  assumes "\<forall>t \<in> set fws. fits (length b) t" and "i < length fws"
    and "covers (fws ! i) p"
    and "\<forall>j. i < j \<and> j < length fws \<longrightarrow> \<not> covers (fws ! j) p"
  shows "copy_data fws b ! nat p = fw_data (fws ! i) ! nat (p - fw_offset (fws ! i))"
  using assms
proof (induction fws rule: rev_induct)
  case Nil
  then show ?case by simp
next
  case (snoc t fws)
  from snoc.prems have f: "fits (length b) t" by simp
  then have s: "fw_size t = int (length (fw_data t))" by (simp add: fits_def)
  have l: "length (copy_data fws b) = length b"
    using snoc.prems by (intro length_copy_data) simp
  have fi: "fits (length b) ((fws @ [t]) ! i)"
    using snoc.prems(1,2) by (metis nth_mem)
  have p: "0 \<le> p" "nat p < length b"
    using fi snoc.prems(3) by (auto simp: fits_def covers_def)
  show ?case
  proof (cases "i = length fws")
    case True
    then have c: "covers t p" using snoc.prems(3) by simp
    have "copy_data (fws @ [t]) b ! nat p = fw_data t ! (nat p - nat (fw_offset t))"
      unfolding copy_data_snoc s
      using f c l p
      by (subst nth_set_slice) (auto simp: fits_def covers_def)
    moreover have "nat p - nat (fw_offset t) = nat (p - fw_offset t)"
      using f c by (simp add: fits_def covers_def nat_diff_distrib)
    ultimately show ?thesis using True by simp
  next
    case False
    then have i: "i < length fws" using snoc.prems(2) by simp
    have n: "\<not> covers t p"
      using snoc.prems(4) [rule_format, of "length fws"] i by simp
    have "copy_data (fws @ [t]) b ! nat p = copy_data fws b ! nat p"
      unfolding copy_data_snoc s
      using f n l p
      by (subst nth_set_slice) (auto simp: fits_def covers_def)
    also have "\<dots> = fw_data (fws ! i) ! nat (p - fw_offset (fws ! i))"
    proof (rule snoc.IH)
      show "\<forall>t\<in>set fws. fits (length b) t" using snoc.prems(1) by simp
      show "i < length fws" by (rule i)
      show "covers (fws ! i) p" using snoc.prems(3) i by (simp add: nth_append)
      show "\<forall>j. i < j \<and> j < length fws \<longrightarrow> \<not> covers (fws ! j) p"
      proof (intro allI impI)
        fix j assume j: "i < j \<and> j < length fws"
        then have "\<not> covers ((fws @ [t]) ! j) p"
          using snoc.prems(4) [rule_format, of j] by simp
        then show "\<not> covers (fws ! j) p" using j by (simp add: nth_append)
      qed
    qed
    finally show ?thesis using i by (simp add: nth_append)
  qed
qed

lemma elan_headers_loop_Inr:
  "elan_headers_loop ts acc = Inr hs \<Longrightarrow>
     \<exists>blocks. hs = acc @ concat blocks \<and> list_all2 entry_header ts blocks"
proof (induction ts arbitrary: acc hs)
  case Nil
  then show ?case by simp
next
  case (Cons t ts)
  from Cons.prems obtain crc h where
    c: "fw_crc t = Some crc" and
    h: "generate_elan_header (fw_offset t) (fw_size t) crc = Inr h" and
    r: "elan_headers_loop ts (acc @ h) = Inr hs"
    by (auto split: option.splits sum.splits)
  from Cons.IH [OF r] obtain blocks where
    "hs = (acc @ h) @ concat blocks" "list_all2 entry_header ts blocks" by blast
  then have "hs = acc @ concat (h # blocks) \<and> list_all2 entry_header (t # ts) (h # blocks)"
    using c h by (simp add: entry_header_def)
  then show ?case by blast
qed

section \<open>The image and its header region\<close>

lemma get_slice_prefix:
  assumes "0 \<le> lo" and "lo \<le> hi" and "nat hi \<le> length xs"
  shows "get_slice (xs @ ys) lo hi = get_slice xs lo hi"
proof -
  have "slice_index (length (xs @ ys)) lo = nat lo" "slice_index (length xs) lo = nat lo"
    "slice_index (length (xs @ ys)) hi = nat hi" "slice_index (length xs) hi = nat hi"
    using assms by (simp_all add: slice_index_def)
  then show ?thesis
    using assms by (simp add: get_slice_def Let_def)
qed

lemma get_slice_suffix:
  assumes "length xs = length ys" and "int (length xs) \<le> lo" and "lo \<le> hi"
  shows "get_slice (xs @ zs) lo hi = get_slice (ys @ zs) lo hi"
proof -
  have lo: "0 \<le> lo" and hi: "0 \<le> hi" using assms by simp_all
  have l: "length xs \<le> slice_index (length (xs @ zs)) lo"
    using assms lo by (simp add: slice_index_def)
  have e: "slice_index (length (ys @ zs)) lo = slice_index (length (xs @ zs)) lo"
    "slice_index (length (ys @ zs)) hi = slice_index (length (xs @ zs)) hi"
    using assms by (simp_all add: slice_index_def)
  show ?thesis
    using l assms(1) by (simp add: get_slice_def Let_def e)
qed

lemma get_slice_block:
  assumes "length aio = a" and "\<forall>b \<in> set blocks. length b = n" and "i < length blocks"
    and "k + m \<le> n"
  shows "get_slice (aio @ concat blocks @ rest) (int a + int i * int n + int k)
           (int a + int i * int n + int k + int m) = take m (drop k (blocks ! i))"
proof -
  let ?out = "aio @ concat blocks @ rest"
  have lb: "length (blocks ! i) = n" using assms(2,3) by simp
  have "i * n + n \<le> length blocks * n"
    using assms(3) by (metis Suc_leI mult_Suc mult_le_mono1 add.commute)
  then have len: "a + i * n + k + m \<le> length ?out"
    using assms(1,4) by (simp add: length_concat_blocks [OF assms(2)])
  have "get_slice ?out (int a + int i * int n + int k) (int a + int i * int n + int k + int m)
          = take (nat (int m)) (drop (nat (int a + int i * int n + int k)) ?out)"
  proof (rule get_slice_inrange)
    from len have "int (a + i * n + k + m) \<le> int (length ?out)"
      by (simp only: of_nat_le_iff)
    then show "int a + int i * int n + int k + int m \<le> int (length ?out)"
      by simp
  qed simp_all
  also have "nat (int a + int i * int n + int k) = a + i * n + k"
    by (simp add: nat_add_distrib nat_mult_distrib)
  also have "drop (a + i * n + k) ?out = drop k (drop (i * n) (drop a ?out))"
    by (simp only: drop_drop ac_simps)
  also have "drop a ?out = concat blocks @ rest" using assms(1) by simp
  also have "drop (i * n) (concat blocks @ rest)
               = blocks ! i @ concat (drop (Suc i) blocks) @ rest"
  proof -
    from \<open>i * n + n \<le> length blocks * n\<close> have "i * n - length blocks * n = 0"
      by linarith
    then show ?thesis
      using drop_concat_blocks [OF assms(2,3)] length_concat_blocks [OF assms(2)] by simp
  qed
  finally show ?thesis
    using lb assms(4) by simp
qed

lemma entry_fields:
  assumes "generate_elan_header fo fs c = Inr h"
  shows "unpack_le (take 4 (drop 0x28 h)) = fo" and "unpack_le (take 4 (drop 0x2C h)) = fs"
    and "unpack_le (take 4 (drop 0x30 h)) = c"
proof -
  from assms obtain a0 a1 a2 a3 s0 s1 s2 s3 c0 c1 c2 c3 where
    fo: "pack_I fo = Inr [a0, a1, a2, a3]" and fs: "pack_I fs = Inr [s0, s1, s2, s3]"
    and c: "pack_I c = Inr [c0, c1, c2, c3]"
    and h: "take 4 (drop 0x28 h) = [a0, a1, a2, a3]" "take 4 (drop 0x2C h) = [s0, s1, s2, s3]"
      "take 4 (drop 0x30 h) = [c0, c1, c2, c3]"
    by (rule generate_elan_header_cases) simp
  show "unpack_le (take 4 (drop 0x28 h)) = fo" using unpack_pack_I [OF fo] h by simp
  show "unpack_le (take 4 (drop 0x2C h)) = fs" using unpack_pack_I [OF fs] h by simp
  show "unpack_le (take 4 (drop 0x30 h)) = c" using unpack_pack_I [OF c] h by simp
qed

lemma length_generate_aio_header:
  "generate_aio_header n = Inr aio \<Longrightarrow> length aio = 0x20"
  by (auto simp: generate_aio_header_def Let_def split: sum.splits if_splits)

lemma entry_header_length: "entry_header t b \<Longrightarrow> length b = 0x50"
  by (auto simp: entry_header_def split: option.splits dest: length_generate_elan_header)

lemma blocks_length:
  "list_all2 entry_header ts blocks \<Longrightarrow> \<forall>b \<in> set blocks. length b = 0x50"
proof
  fix b assume "b \<in> set blocks"
  then obtain i where i: "i < length blocks" "b = blocks ! i"
    by (auto simp: in_set_conv_nth)
  assume "list_all2 entry_header ts blocks"
  then have "entry_header (ts ! i) (blocks ! i)"
    using i(1) by (simp add: list_all2_conv_all_nth)
  then show "length b = 0x50" using i(2) by (simp add: entry_header_length)
qed

lemma length_set_crcs: "length (set_crcs b fws) = length fws"
  by (simp add: set_crcs_def)

lemma gather_fits:
  assumes "gather w ths ths ts = Inr fws" and "0 \<le> ths" and "t \<in> set fws"
  shows "fits (nat (compute_max_end ths fws)) t"
proof -
  have "ths \<le> fw_offset t" by (rule gather_offset_ge [OF assms(1,3)])
  moreover have "fw_size t = int (length (fw_data t))" by (rule gather_size [OF assms(1,3)])
  moreover have "fw_offset t + fw_size t \<le> compute_max_end ths fws"
    by (rule compute_max_end_end [OF assms(3)])
  ultimately show ?thesis using assms(2) by (simp add: fits_def)
qed

lemma set_slice_head:
  "0 \<le> hi \<Longrightarrow> nat hi \<le> length buf \<Longrightarrow> set_slice buf 0 hi v = v @ drop (nat hi) buf"
  by (simp add: set_slice_def slice_index_def Let_def)

lemma header_region_length:
  assumes "length aio = 0x20" and "\<forall>b \<in> set blocks. length b = 0x50"
  shows "int (length (aio @ concat blocks)) = 0x20 + int (length blocks) * 0x50"
  using assms(1) by (simp add: length_concat_blocks [OF assms(2)])

lemma build_image_Inr:
  assumes b: "build_image (int (length fws)) ths fws = Inr (img, max_end)"
    and ths: "ths = 0x20 + int (length fws) * 0x50"
    and f: "\<forall>t \<in> set fws. fits (nat (compute_max_end ths fws)) t"
  obtains aio blocks where
    "max_end = compute_max_end ths fws"
    and "generate_aio_header (int (length fws)) = Inr aio"
    and "list_all2 entry_header
           (set_crcs (copy_data fws (replicate (nat max_end) 0x00)) fws) blocks"
    and "img = aio @ concat blocks @ drop (nat ths) (copy_data fws (replicate (nat max_end) 0x00))"
    and "length (copy_data fws (replicate (nat max_end) 0x00)) = nat max_end"
    and "length img = nat max_end"
proof -
  let ?m = "compute_max_end ths fws"
  let ?B = "copy_data fws (replicate (nat ?m) 0x00)"
  have e: "build_image (int (length fws)) ths fws =
      (case generate_aio_header (int (length fws)) of Inl e \<Rightarrow> Inl e
       | Inr aio \<Rightarrow>
           (case elan_headers_loop (set_crcs ?B fws) [] of Inl e \<Rightarrow> Inl e
            | Inr hs \<Rightarrow> Inr (set_slice ?B 0 ths (aio @ hs), ?m)))"
    by (simp only: build_image_def Let_def)
  obtain aio where aio: "generate_aio_header (int (length fws)) = Inr aio"
    using b unfolding e by (cases "generate_aio_header (int (length fws))") simp_all
  obtain hs where hs: "elan_headers_loop (set_crcs ?B fws) [] = Inr hs"
    using b unfolding e aio sum.case
    by (cases "elan_headers_loop (set_crcs ?B fws) []") simp_all
  have img: "img = set_slice ?B 0 ths (aio @ hs)" and max_end: "max_end = ?m"
    using b unfolding e aio hs sum.case by auto
  from elan_headers_loop_Inr [OF hs] obtain blocks where
    blocks: "hs = concat blocks" "list_all2 entry_header (set_crcs ?B fws) blocks"
    by auto
  have lB: "length ?B = nat ?m"
    using f by (subst length_copy_data) simp_all
  have ge: "ths \<le> ?m" by (rule compute_max_end_ge)
  have t0: "0 \<le> ths" using ths by simp
  have la: "length aio = 0x20" by (rule length_generate_aio_header [OF aio])
  have lb: "\<forall>b \<in> set blocks. length b = 0x50" by (rule blocks_length [OF blocks(2)])
  have n: "length blocks = length fws"
    using list_all2_lengthD [OF blocks(2)] by (simp add: length_set_crcs)
  have lh: "int (length (aio @ hs)) = ths"
    unfolding blocks(1) header_region_length [OF la lb] n ths ..
  have s: "set_slice ?B 0 ths (aio @ hs) = (aio @ hs) @ drop (nat ths) ?B"
  proof (rule set_slice_head [OF t0])
    show "nat ths \<le> length ?B" unfolding lB using ge by simp
  qed
  have i: "img = aio @ concat blocks @ drop (nat ths) ?B"
    using img s blocks(1) by simp
  have lh': "length (aio @ hs) = nat ths"
    using lh by (metis nat_int)
  have nm: "nat ths \<le> nat ?m" using ge by simp
  have "length img = length (aio @ hs) + (length ?B - nat ths)"
    by (simp add: i blocks(1))
  also have "\<dots> = nat ths + (nat ?m - nat ths)"
    by (simp only: lh' lB)
  also have "\<dots> = nat ?m"
    using nm by simp
  finally have li: "length img = nat ?m" .
  show ?thesis
    using that [of aio blocks] max_end aio blocks(2) i lB li by simp
qed

lemma merge_binaries_Inr:
  assumes m: "merge_binaries w ts outp = (Inr (hs, max_end), w')"
  obtains fws img where
    "gather w (0x20 + int (length ts) * 0x50) (0x20 + int (length ts) * 0x50) ts = Inr fws"
    and "build_image (int (length ts)) (0x20 + int (length ts) * 0x50) fws = Inr (img, max_end)"
    and "hs = 0x20 + int (length ts) * 0x50"
    and "files w' outp = Some img"
proof -
  let ?ths = "0x20 + int (length ts) * 0x50"
  have e: "merge_binaries w ts outp =
      (case gather w ?ths ?ths ts of Inl e \<Rightarrow> (Inl e, w)
       | Inr fw_data_list \<Rightarrow>
           (case build_image (int (length ts)) ?ths fw_data_list of Inl e \<Rightarrow> (Inl e, w)
            | Inr (final_bin, max_end) \<Rightarrow>
                (case write_file w outp final_bin of Inl e \<Rightarrow> (Inl e, w)
                 | Inr w' \<Rightarrow> (Inr (?ths, max_end), w'))))"
    by (simp only: merge_binaries_def Let_def)
  obtain fws where g: "gather w ?ths ?ths ts = Inr fws"
    using m unfolding e by (cases "gather w ?ths ?ths ts") simp_all
  obtain img mx where bi: "build_image (int (length ts)) ?ths fws = Inr (img, mx)"
    using m unfolding e g sum.case
    by (cases "build_image (int (length ts)) ?ths fws") auto
  obtain w2 where wf: "write_file w outp img = Inr w2"
    using m unfolding e g bi sum.case prod.case
    by (cases "write_file w outp img") simp_all
  have r: "hs = ?ths" "mx = max_end" "w2 = w'"
    using m unfolding e g bi wf sum.case prod.case by simp_all
  have "files w' outp = Some img"
    using wf r(3) by (auto simp: write_file_def split: if_splits)
  then show ?thesis
    using that [of fws img] g bi r by simp
qed

section \<open>The merge on the examples\<close>

lemma gather_ex: "gather w_ex 0xC0 0xC0 ts_ex = Inr r_ex"
  by (simp add: w_ex_def ts_ex_def r_ex_def read_file_def)

lemma gather_cx: "gather w_cx 0x110 0x110 ts_cx = Inr r_cx"
  by (simp add: w_cx_def ts_cx_def r_cx_def read_file_def)

lemma build_image_ex: "build_image 2 0xC0 r_ex = Inr (img_ex, 0xC4)"
  by code_simp

lemma generate_elan_header_ex: "generate_elan_header 0xC0 4 0xFBAB0A09 = Inr hdr_ex"
  by code_simp

lemma gather_ex': "gather w_ex (0x20 + int (length ts_ex) * 0x50) (0x20 + int (length ts_ex) * 0x50) ts_ex = Inr r_ex"
proof -
  have l: "0x20 + int (length ts_ex) * 0x50 = 0xC0" by (simp add: ts_ex_def)
  show ?thesis unfolding l by (rule gather_ex)
qed

lemma merge_ex: "merge_binaries w_ex ts_ex ''out'' = (Inr (0xC0, 0xC4), w_out)"
proof -
  have l: "int (length ts_ex) = 2" by (simp add: ts_ex_def)
  have w: "write_file w_ex ''out'' img_ex = Inr w_out"
    by (simp add: write_file_def w_out_def) (simp add: w_ex_def)
  show ?thesis
    unfolding merge_binaries_def Let_def l
    by (simp add: gather_ex build_image_ex w)
qed

lemma files_w_out: "files w_out ''out'' = Some img_ex"
  by (simp add: w_out_def)

lemma length_img_ex: "length img_ex = 196"
  by (simp add: img_ex_def)

section \<open>The parts of a written image\<close>

lemma merge_image:
  assumes m: "merge_binaries w ts outp = (Inr (hs, max_end), w')"
    and g: "gather w (0x20 + int (length ts) * 0x50) (0x20 + int (length ts) * 0x50) ts = Inr r"
  obtains img aio blocks where
    "files w' outp = Some img"
    and "hs = 0x20 + int (length ts) * 0x50"
    and "max_end = compute_max_end hs r"
    and "generate_aio_header (int (length ts)) = Inr aio"
    and "list_all2 entry_header
           (set_crcs (copy_data r (replicate (nat max_end) 0x00)) r) blocks"
    and "img = aio @ concat blocks @ drop (nat hs) (copy_data r (replicate (nat max_end) 0x00))"
    and "length (copy_data r (replicate (nat max_end) 0x00)) = nat max_end"
    and "length img = nat max_end"
    and "\<forall>t \<in> set r. fits (nat max_end) t"
proof -
  let ?ths = "0x20 + int (length ts) * 0x50"
  from m obtain fws img where
    g': "gather w ?ths ?ths ts = Inr fws" and
    b: "build_image (int (length ts)) ?ths fws = Inr (img, max_end)" and
    hs: "hs = ?ths" and f: "files w' outp = Some img"
    by (rule merge_binaries_Inr)
  have fws: "fws = r" using g g' by simp
  have n: "length r = length ts" by (rule gather_length [OF g])
  have t0: "0 \<le> ?ths" by simp
  have fit: "\<forall>t \<in> set r. fits (nat (compute_max_end ?ths r)) t"
    using gather_fits [OF g t0] by blast
  have b': "build_image (int (length r)) ?ths r = Inr (img, max_end)"
    using b by (simp add: fws n)
  have ths: "?ths = 0x20 + int (length r) * 0x50" by (simp add: n)
  from b' ths fit obtain aio blocks where
    r: "max_end = compute_max_end ?ths r"
    "generate_aio_header (int (length r)) = Inr aio"
    "list_all2 entry_header (set_crcs (copy_data r (replicate (nat max_end) 0x00)) r) blocks"
    "img = aio @ concat blocks @ drop (nat ?ths) (copy_data r (replicate (nat max_end) 0x00))"
    "length (copy_data r (replicate (nat max_end) 0x00)) = nat max_end"
    "length img = nat max_end"
    by (rule build_image_Inr)
  show ?thesis
    using that [of img aio blocks] f hs r fit by (simp add: n)
qed

lemma header_region:
  assumes "generate_aio_header n = Inr aio" and "list_all2 entry_header fws blocks"
  shows "int (length (aio @ concat blocks)) = 0x20 + int (length fws) * 0x50"
proof -
  have "int (length (aio @ concat blocks)) = 0x20 + int (length blocks) * 0x50"
    by (rule header_region_length [OF length_generate_aio_header [OF assms(1)]
          blocks_length [OF assms(2)]])
  then show ?thesis using list_all2_lengthD [OF assms(2)] by simp
qed

lemma aio_fields:
  assumes "generate_aio_header n = Inr aio"
  shows "unpack_le (get_slice (aio @ rest) 0x06 0x08) = 0x20 + n * 0x50"
    and "uint ((aio @ rest) ! 0x0E) = n"
proof -
  have r: "0 \<le> n \<and> n \<le> 0xFF"
    using generate_aio_header_Inl [of n] assms by (cases "n < 0 \<or> 0xFF < n") auto
  then have a: "aio = [0x41, 0x49, 0x4F, 0x48, 0x01, 0x00,
           word_of_int (0x20 + n * 0x50), word_of_int ((0x20 + n * 0x50) div 0x100),
           0x01, 0x78, 0x56, 0x34, 0x12, 0x00, word_of_int n] @ replicate 17 0xFF"
    using generate_aio_header_Inr [of n] assms by simp
  have l: "length aio = 0x20" by (rule length_generate_aio_header [OF assms])
  have p: "pack_H (0x20 + n * 0x50)
             = Inr [word_of_int (0x20 + n * 0x50), word_of_int ((0x20 + n * 0x50) div 0x100)]"
    using r by (simp add: pack_H_def)
  have "get_slice (aio @ rest) 0x06 0x08 = get_slice aio 0x06 0x08"
    by (rule get_slice_prefix) (simp_all add: l)
  also have "\<dots> = [word_of_int (0x20 + n * 0x50), word_of_int ((0x20 + n * 0x50) div 0x100)]"
    unfolding a by (simp add: get_slice_const)
  finally show "unpack_le (get_slice (aio @ rest) 0x06 0x08) = 0x20 + n * 0x50"
    using unpack_pack_H [OF p] by simp
  have "(aio @ rest) ! 0x0E = word_of_int n"
    unfolding a by simp
  then show "uint ((aio @ rest) ! 0x0E) = n"
    using r by (simp add: uint_byte_of_int)
qed

lemma merge_entry:
  assumes "merge_binaries w ts outp = (Inr (hs, max_end), w')"
    and "gather w (0x20 + int (length ts) * 0x50) (0x20 + int (length ts) * 0x50) ts = Inr r"
    and "i < length r"
  obtains img where
    "files w' outp = Some img"
    and "parse_header_size img = hs"
    and "parse_entry_count img = int (length ts)"
    and "parse_entry_offset img i = fw_offset (r ! i)"
    and "parse_entry_size img i = fw_size (r ! i)"
    and "fw_crc (set_crcs (copy_data r (replicate (nat max_end) 0x00)) r ! i)
           = Some (parse_entry_crc img i)"
    and "get_slice img (fw_offset (r ! i)) (fw_offset (r ! i) + fw_size (r ! i))
           = get_slice (copy_data r (replicate (nat max_end) 0x00))
               (fw_offset (r ! i)) (fw_offset (r ! i) + fw_size (r ! i))"
proof -
  let ?B = "copy_data r (replicate (nat max_end) 0x00)"
  let ?o = "fw_offset (r ! i)" and ?s = "fw_size (r ! i)"
  let ?c = "calculate_crc32 (get_slice ?B ?o (?o + ?s))"
  from assms(1,2) obtain img aio blocks where
    f: "files w' outp = Some img" and hs: "hs = 0x20 + int (length ts) * 0x50"
    and mx: "max_end = compute_max_end hs r"
    and aio: "generate_aio_header (int (length ts)) = Inr aio"
    and bl: "list_all2 entry_header (set_crcs ?B r) blocks"
    and img: "img = aio @ concat blocks @ drop (nat hs) ?B"
    and lB: "length ?B = nat max_end"
    by (rule merge_image)
  have n: "length r = length ts" by (rule gather_length [OF assms(2)])
  have m: "r ! i \<in> set r" using assms(3) by simp
  have la: "length aio = 0x20" by (rule length_generate_aio_header [OF aio])
  have lb: "\<forall>b \<in> set blocks. length b = 0x50" by (rule blocks_length [OF bl])
  have ib: "i < length blocks"
    using list_all2_lengthD [OF bl] assms(3) by (simp add: length_set_crcs)
  have ci: "set_crcs ?B r ! i = (r ! i)\<lparr>fw_crc := Some ?c\<rparr>"
    using assms(3) by (simp add: set_crcs_def Let_def)
  have "entry_header (set_crcs ?B r ! i) (blocks ! i)"
    using bl ib by (simp add: list_all2_conv_all_nth)
  then have g: "generate_elan_header ?o ?s ?c = Inr (blocks ! i)"
    by (simp add: ci entry_header_def)
  have s: "get_slice img (0x20 + int i * 0x50 + int k) (0x20 + int i * 0x50 + int k + 4)
             = take 4 (drop k (blocks ! i))" if "k + 4 \<le> 0x50" for k
    using get_slice_block [OF la lb ib that, of "drop (nat hs) ?B"] by (simp add: img)
  have po: "parse_entry_offset img i = ?o"
    using s [of "0x28"] entry_fields(1) [OF g] by (simp add: parse_entry_offset_def)
  have ps: "parse_entry_size img i = ?s"
    using s [of "0x2C"] entry_fields(2) [OF g] by (simp add: parse_entry_size_def)
  have pc: "parse_entry_crc img i = ?c"
    using s [of "0x30"] entry_fields(3) [OF g] by (simp add: parse_entry_crc_def)
  have ph: "parse_header_size img = hs"
    using aio_fields(1) [OF aio] by (simp add: parse_header_size_def img hs)
  have pn: "parse_entry_count img = int (length ts)"
    using aio_fields(2) [OF aio] by (simp add: parse_entry_count_def img)
  have h0: "0 \<le> hs" by (simp add: hs)
  have ge: "hs \<le> max_end" unfolding mx by (rule compute_max_end_ge)
  have lh: "int (length (aio @ concat blocks)) = hs"
    using header_region [OF aio bl] by (simp add: length_set_crcs n hs)
  have lt: "length (take (nat hs) ?B) = length (aio @ concat blocks)"
  proof -
    have "length (take (nat hs) ?B) = nat hs" using ge h0 lB by simp
    also have "\<dots> = length (aio @ concat blocks)" using lh by (metis nat_int)
    finally show ?thesis .
  qed
  have o: "hs \<le> ?o" unfolding hs by (rule gather_offset_ge [OF assms(2) m])
  have z: "0 \<le> ?s" using gather_size [OF assms(2) m] by simp
  have "get_slice img ?o (?o + ?s) = get_slice ((aio @ concat blocks) @ drop (nat hs) ?B) ?o (?o + ?s)"
    by (simp add: img)
  also have "\<dots> = get_slice (take (nat hs) ?B @ drop (nat hs) ?B) ?o (?o + ?s)"
  proof (rule get_slice_suffix)
    show "length (aio @ concat blocks) = length (take (nat hs) ?B)" using lt by simp
    show "int (length (aio @ concat blocks)) \<le> ?o" unfolding lh by (rule o)
    show "?o \<le> ?o + ?s" using z by simp
  qed
  also have "\<dots> = get_slice ?B ?o (?o + ?s)" by simp
  finally have gs: "get_slice img ?o (?o + ?s) = get_slice ?B ?o (?o + ?s)" .
  show ?thesis
    using that [of img] f ph pn po ps gs by (simp add: ci pc)
qed

section \<open>Offset resolution\<close>

text \<open>
  C1, as stated: an entry with a null offset is placed at \<open>max(cursor, header_size)\<close>, the
  cursor being the end of the highest range resolved so far, so never inside an earlier
  range. The code keeps the end of the entry just before as its cursor. With three entries
  (header size \<open>0x110\<close>), a 20-byte source at \<open>0x118\<close>, a 4-byte source at \<open>0x11A\<close> and an
  auto-appended source, the third entry is placed at \<open>0x11E\<close>, not at the highest end
  \<open>0x12C\<close>, and \<open>0x11E\<close> lies inside the range of the first entry.
\<close>

theorem auto_append_highest_end_counterexample:
  "gather w_cx (0x20 + int (length ts_cx) * 0x50) (0x20 + int (length ts_cx) * 0x50) ts_cx
     = Inr r_cx
   \<and> offset (ts_cx ! 2) = None
   \<and> fw_offset (r_cx ! 2) = 0x11E
   \<and> max (highest_end (0x20 + int (length ts_cx) * 0x50) (take 2 r_cx))
          (0x20 + int (length ts_cx) * 0x50) = 0x12C
   \<and> fw_offset (r_cx ! 2)
        \<noteq> max (highest_end (0x20 + int (length ts_cx) * 0x50) (take 2 r_cx))
              (0x20 + int (length ts_cx) * 0x50)
   \<and> covers (r_cx ! 0) (fw_offset (r_cx ! 2))"
proof -
  have l: "0x20 + int (length ts_cx) * 0x50 = 0x110"
    by (simp add: ts_cx_def)
  have h: "highest_end 0x110 (take 2 r_cx) = 0x12C"
    by (simp add: r_cx_def highest_end_def numeral_2_eq_2)
  show ?thesis
    unfolding l h using gather_cx
    by (simp add: ts_cx_def r_cx_def covers_def)
qed

text \<open>
  C1, amended: an entry with a null offset is placed at \<open>max(cursor, header_size)\<close>, where
  the cursor is the header size for the first entry and the end (resolved offset plus size)
  of the entry just before it otherwise. The cursor is never below the header size, so the
  entry is placed exactly at the cursor: an auto-appended entry starts where the entry just
  before it ends.
\<close>

theorem auto_append_after_previous:
  assumes "gather w ths ths ts = Inr r" and "i < length ts" and "offset (ts ! i) = None"
  shows "fw_offset (r ! i) = max (previous_end ths r i) ths
         \<and> fw_offset (r ! i) = previous_end ths r i"
proof -
  have o: "fw_offset (r ! i) = max (previous_end ths r i) ths"
    using gather_nth [OF assms(1) assms(2)] assms(3) by (simp add: previous_end_def)
  have "ths \<le> previous_end ths r i"
  proof (cases i)
    case 0
    then show ?thesis by (simp add: previous_end_def)
  next
    case (Suc j)
    then have j: "j < length r" using assms(2) gather_length [OF assms(1)] by simp
    then have m: "r ! j \<in> set r" by simp
    have "ths \<le> fw_offset (r ! j)" by (rule gather_offset_ge [OF assms(1) m])
    moreover have "0 \<le> fw_size (r ! j)" using gather_size [OF assms(1) m] by simp
    ultimately show ?thesis using Suc by (simp add: previous_end_def)
  qed
  with o show ?thesis by simp
qed

theorem auto_append_after_previous_witness:
  "gather w_cx 0x110 0x110 ts_cx = Inr r_cx \<and> (2::nat) < length ts_cx
   \<and> offset (ts_cx ! 2) = None
   \<and> fw_offset (r_cx ! 2) = max (previous_end 0x110 r_cx 2) 0x110
   \<and> fw_offset (r_cx ! 2) = previous_end 0x110 r_cx 2"
proof -
  have a: "(2::nat) < length ts_cx" by (simp add: ts_cx_def)
  have b: "offset (ts_cx ! 2) = None" by (simp add: ts_cx_def)
  show ?thesis
    using auto_append_after_previous [OF gather_cx a b] gather_cx a b by simp
qed

text \<open>
  C3: every resolved offset of a merge of \<open>N\<close> entries is at least the header size
  \<open>0x20 + N * 0x50\<close>, whatever offset was requested, so the range of no entry meets the
  header region.
\<close>

theorem resolved_offset_ge_header_size:
  assumes "gather w (0x20 + int (length ts) * 0x50) (0x20 + int (length ts) * 0x50) ts = Inr r"
    and "t \<in> set r"
  shows "0x20 + int (length ts) * 0x50 \<le> fw_offset t
         \<and> {fw_offset t ..< fw_offset t + fw_size t} \<inter> {0 ..< 0x20 + int (length ts) * 0x50} = {}"
proof -
  have "0x20 + int (length ts) * 0x50 \<le> fw_offset t"
    by (rule gather_offset_ge [OF assms])
  then show ?thesis by auto
qed

theorem resolved_offset_ge_header_size_witness:
  "gather w_cx (0x20 + int (length ts_cx) * 0x50) (0x20 + int (length ts_cx) * 0x50) ts_cx
     = Inr r_cx
   \<and> r_cx ! 1 \<in> set r_cx
   \<and> 0x20 + int (length ts_cx) * 0x50 \<le> fw_offset (r_cx ! 1)
   \<and> {fw_offset (r_cx ! 1) ..< fw_offset (r_cx ! 1) + fw_size (r_cx ! 1)}
        \<inter> {0 ..< 0x20 + int (length ts_cx) * 0x50} = {}"
proof -
  have l: "0x20 + int (length ts_cx) * 0x50 = 0x110"
    by (simp add: ts_cx_def)
  have g: "gather w_cx (0x20 + int (length ts_cx) * 0x50) (0x20 + int (length ts_cx) * 0x50)
             ts_cx = Inr r_cx"
    unfolding l by (rule gather_cx)
  have m: "r_cx ! 1 \<in> set r_cx" by (simp add: r_cx_def)
  show ?thesis
    using resolved_offset_ge_header_size [OF g m] g m by simp
qed

text \<open>
  C4: an entry with an explicit offset is placed at that offset when it is at least the
  header size, whatever the other entries occupy, and at the header size when it is below.
\<close>

theorem explicit_offset_resolution:
  assumes "gather w ths ths ts = Inr r" and "i < length ts" and "offset (ts ! i) = Some ofs"
  shows "fw_offset (r ! i) = (if ofs < ths then ths else ofs)"
  using gather_nth [OF assms(1) assms(2)] assms(3) by simp

theorem explicit_offset_resolution_witness:
  "gather w_cx 0x110 0x110 ts_cx = Inr r_cx \<and> (1::nat) < length ts_cx
   \<and> offset (ts_cx ! 1) = Some 0x11A
   \<and> fw_offset (r_cx ! 1) = (if (0x11A::int) < 0x110 then 0x110 else 0x11A)"
proof -
  have a: "(1::nat) < length ts_cx" by (simp add: ts_cx_def)
  have b: "offset (ts_cx ! 1) = Some 0x11A" by (simp add: ts_cx_def)
  show ?thesis
    using explicit_offset_resolution [OF gather_cx a b] gather_cx a b by simp
qed

section \<open>Failures\<close>

text \<open>
  C9: when a source of the list cannot be opened, \<open>merge_binaries\<close> raises the error of the
  first such source and leaves the file system as it was: nothing is written to the
  destination.
\<close>

theorem unreadable_source_aborts:
  assumes "t \<in> set ts" and "files w (path t) = None"
  shows "\<exists>p. merge_binaries w ts outp = (Inl (SourceReadError p), w)
             \<and> files w p = None \<and> p \<in> path ` set ts"
proof -
  obtain p where
    "gather w (0x20 + int (length ts) * 0x50) (0x20 + int (length ts) * 0x50) ts
       = Inl (SourceReadError p)"
    and "files w p = None" and "p \<in> path ` set ts"
    using gather_unreadable [OF assms] by blast
  then show ?thesis by (auto simp: merge_binaries_def Let_def)
qed

theorem unreadable_source_aborts_witness:
  "\<lparr>path = ''z'', offset = None\<rparr> \<in> set [\<lparr>path = ''a'', offset = None\<rparr>, \<lparr>path = ''z'', offset = None\<rparr>]
   \<and> files w_ex (path \<lparr>path = ''z'', offset = None\<rparr>) = None
   \<and> (\<exists>p. merge_binaries w_ex [\<lparr>path = ''a'', offset = None\<rparr>, \<lparr>path = ''z'', offset = None\<rparr>] ''out''
              = (Inl (SourceReadError p), w_ex)
            \<and> files w_ex p = None
            \<and> p \<in> path ` set [\<lparr>path = ''a'', offset = None\<rparr>, \<lparr>path = ''z'', offset = None\<rparr>])"
proof -
  have a: "\<lparr>path = ''z'', offset = None\<rparr>
             \<in> set [\<lparr>path = ''a'', offset = None\<rparr>, \<lparr>path = ''z'', offset = None\<rparr>]"
    by simp
  have b: "files w_ex (path \<lparr>path = ''z'', offset = None\<rparr>) = None"
    by (simp add: w_ex_def)
  show ?thesis
    using unreadable_source_aborts [OF a b, of "''out''"] a b by blast
qed

text \<open>
  C10: a list of more than 255 entries makes \<open>merge_binaries\<close> raise an error: the
  count is packed into one byte by \<open>generate_aio_header\<close>, after every source has been
  read and before the destination is opened, so the file system is left as it was.
\<close>

theorem too_many_entries_rejected:
  assumes "255 < length ts"
  shows "\<exists>e. merge_binaries w ts outp = (Inl e, w)"
proof -
  let ?ths = "0x20 + int (length ts) * 0x50"
  have a: "generate_aio_header (int (length ts)) = Inl StructError"
    using assms by (intro generate_aio_header_Inl) simp
  have b: "build_image (int (length ts)) ?ths fws = Inl StructError" for fws
    by (simp add: build_image_def Let_def a)
  show ?thesis
    by (cases "gather w ?ths ?ths ts") (simp_all add: merge_binaries_def Let_def b)
qed

theorem too_many_entries_rejected_witness:
  "255 < length (replicate 256 \<lparr>path = ''a'', offset = None\<rparr>)
   \<and> (\<exists>e. merge_binaries w_ex (replicate 256 \<lparr>path = ''a'', offset = None\<rparr>) ''out''
            = (Inl e, w_ex))"
proof -
  have a: "255 < length (replicate 256 \<lparr>path = ''a'', offset = None\<rparr>)" by simp
  show ?thesis
    using too_many_entries_rejected [OF a, of w_ex "''out''"] a by blast
qed

section \<open>Composition and sizes\<close>

text \<open>
  C5: in the file a successful merge writes, a position covered by the range of an entry
  holds the payload byte of the covering entry with the highest index in the input: the
  payloads are written in input order and a later write replaces an earlier one byte for
  byte. Such a position is at or above the header size, and the payload is the content of
  the entry's source.
\<close>

theorem later_entry_wins:
  assumes "merge_binaries w ts outp = (Inr (hs, max_end), w')"
    and "gather w (0x20 + int (length ts) * 0x50) (0x20 + int (length ts) * 0x50) ts = Inr r"
    and "i < length r" and "covers (r ! i) p"
    and "\<forall>j. i < j \<and> j < length r \<longrightarrow> \<not> covers (r ! j) p"
  shows "hs \<le> p \<and> files w (path (ts ! i)) = Some (fw_data (r ! i))
         \<and> (\<exists>out. files w' outp = Some out \<and> nat p < length out
                \<and> out ! nat p = fw_data (r ! i) ! nat (p - fw_offset (r ! i)))"
proof -
  let ?B = "copy_data r (replicate (nat max_end) 0x00)"
  from assms(1,2) obtain img aio blocks where
    f: "files w' outp = Some img" and hs: "hs = 0x20 + int (length ts) * 0x50"
    and mx: "max_end = compute_max_end hs r"
    and aio: "generate_aio_header (int (length ts)) = Inr aio"
    and bl: "list_all2 entry_header (set_crcs ?B r) blocks"
    and img: "img = aio @ concat blocks @ drop (nat hs) ?B"
    and lB: "length ?B = nat max_end" and li: "length img = nat max_end"
    and fit: "\<forall>t \<in> set r. fits (nat max_end) t"
    by (rule merge_image)
  have "hs \<le> max_end" unfolding mx by (rule compute_max_end_ge)
  then have mx0: "0 \<le> max_end" by (simp add: hs)
  have n: "length r = length ts" by (rule gather_length [OF assms(2)])
  have m: "r ! i \<in> set r" using assms(3) by simp
  have "hs \<le> fw_offset (r ! i)"
    unfolding hs by (rule gather_offset_ge [OF assms(2) m])
  then have p: "hs \<le> p" using assms(4) by (simp add: covers_def)
  have h0: "0 \<le> hs" by (simp add: hs)
  have "fits (nat max_end) (r ! i)" using fit m by blast
  then have pm: "p < max_end" using assms(4) mx0 by (simp add: fits_def covers_def)
  have lh: "length (aio @ concat blocks) = nat hs"
    using header_region [OF aio bl] by (simp add: length_set_crcs n hs)
  have "img ! nat p = (aio @ concat blocks @ drop (nat hs) ?B) ! nat p"
    by (simp only: img)
  also have "\<dots> = ((aio @ concat blocks) @ drop (nat hs) ?B) ! nat p"
    by simp
  also have "\<dots> = drop (nat hs) ?B ! (nat p - nat hs)"
    using p h0 by (simp only: nth_append lh) simp
  also have "\<dots> = ?B ! nat p"
    using p h0 pm lB by simp
  also have "\<dots> = fw_data (r ! i) ! nat (p - fw_offset (r ! i))"
  proof (rule nth_copy_data)
    show "\<forall>t\<in>set r. fits (length (replicate (nat max_end) (0x00::byte))) t"
      using fit by simp
  qed (rule assms)+
  finally have b: "img ! nat p = fw_data (r ! i) ! nat (p - fw_offset (r ! i))" .
  have "nat p < length img" using pm p h0 li by simp
  moreover have "files w (path (ts ! i)) = Some (fw_data (r ! i))"
    using gather_data [OF assms(2)] assms(3) n by simp
  ultimately show ?thesis using p f b by simp
qed

theorem later_entry_wins_witness:
  "merge_binaries w_ex ts_ex ''out'' = (Inr (0xC0, 0xC4), w_out)
   \<and> gather w_ex (0x20 + int (length ts_ex) * 0x50) (0x20 + int (length ts_ex) * 0x50) ts_ex
       = Inr r_ex
   \<and> 0 < length r_ex \<and> covers (r_ex ! 0) 0xC3 \<and> \<not> covers (r_ex ! 1) 0xC3
   \<and> (0xC0::int) \<le> 0xC3 \<and> files w_ex (path (ts_ex ! 0)) = Some (fw_data (r_ex ! 0))
   \<and> (\<exists>out. files w_out ''out'' = Some out \<and> nat 0xC3 < length out
          \<and> out ! nat 0xC3 = fw_data (r_ex ! 0) ! nat (0xC3 - fw_offset (r_ex ! 0)))"
proof -
  have a: "0 < length r_ex" by (simp add: r_ex_def)
  have b: "covers (r_ex ! 0) 0xC3" by (simp add: r_ex_def covers_def)
  have d: "\<not> covers (r_ex ! 1) 0xC3" by (simp add: r_ex_def covers_def)
  have c: "\<forall>j. 0 < j \<and> j < length r_ex \<longrightarrow> \<not> covers (r_ex ! j) 0xC3"
    by (auto simp: r_ex_def covers_def less_Suc_eq)
  show ?thesis
    using later_entry_wins [OF merge_ex gather_ex' a b c] merge_ex gather_ex' a b d
    by blast
qed

text \<open>
  C7: a successful merge of \<open>N\<close> entries returns the header size \<open>0x20 + N * 0x50\<close> and
  the total size, the greatest of the header size and the ends of the resolved ranges, and
  the file it writes has exactly that many bytes.
\<close>

theorem merge_returns_sizes:
  assumes "merge_binaries w ts outp = (Inr (hs, max_end), w')"
    and "gather w (0x20 + int (length ts) * 0x50) (0x20 + int (length ts) * 0x50) ts = Inr r"
  shows "hs = 0x20 + int (length ts) * 0x50
         \<and> max_end = Max (insert hs (end_pos ` set r))
         \<and> (\<exists>out. files w' outp = Some out \<and> int (length out) = max_end)"
proof -
  from assms obtain img where
    f: "files w' outp = Some img" and hs: "hs = 0x20 + int (length ts) * 0x50"
    and mx: "max_end = compute_max_end hs r" and li: "length img = nat max_end"
    by (rule merge_image)
  have "hs \<le> max_end" unfolding mx by (rule compute_max_end_ge)
  then have "0 \<le> max_end" using hs by simp
  then have "int (length img) = max_end" using li by simp
  then show ?thesis using f hs mx by (simp add: compute_max_end_Max)
qed

theorem merge_returns_sizes_witness:
  "merge_binaries w_ex ts_ex ''out'' = (Inr (0xC0, 0xC4), w_out)
   \<and> gather w_ex (0x20 + int (length ts_ex) * 0x50) (0x20 + int (length ts_ex) * 0x50) ts_ex
       = Inr r_ex
   \<and> (0xC0::int) = 0x20 + int (length ts_ex) * 0x50
   \<and> (0xC4::int) = Max (insert 0xC0 (end_pos ` set r_ex))
   \<and> (\<exists>out. files w_out ''out'' = Some out \<and> int (length out) = 0xC4)"
  using merge_returns_sizes [OF merge_ex gather_ex'] merge_ex gather_ex' by blast

section \<open>Headers and checksums\<close>

text \<open>
  C8: reading the headers of the file a successful merge writes gives back the header size
  and the entry count at their fixed offsets, and for every entry, in input order from
  offset \<open>0x20\<close> in steps of \<open>0x50\<close>, the resolved offset, the size and the checksum that
  step 3 computed.
\<close>

theorem headers_round_trip:
  assumes "merge_binaries w ts outp = (Inr (hs, max_end), w')"
    and "gather w (0x20 + int (length ts) * 0x50) (0x20 + int (length ts) * 0x50) ts = Inr r"
    and "i < length r"
  shows "\<exists>out. files w' outp = Some out
           \<and> parse_header_size out = hs
           \<and> parse_entry_count out = int (length ts)
           \<and> parse_entry_offset out i = fw_offset (r ! i)
           \<and> parse_entry_size out i = fw_size (r ! i)
           \<and> fw_crc (set_crcs (copy_data r (replicate (nat max_end) 0x00)) r ! i)
                = Some (parse_entry_crc out i)"
  using assms by (rule merge_entry) blast

theorem headers_round_trip_witness:
  "merge_binaries w_ex ts_ex ''out'' = (Inr (0xC0, 0xC4), w_out)
   \<and> gather w_ex (0x20 + int (length ts_ex) * 0x50) (0x20 + int (length ts_ex) * 0x50) ts_ex
       = Inr r_ex
   \<and> 1 < length r_ex
   \<and> (\<exists>out. files w_out ''out'' = Some out
           \<and> parse_header_size out = 0xC0
           \<and> parse_entry_count out = int (length ts_ex)
           \<and> parse_entry_offset out 1 = fw_offset (r_ex ! 1)
           \<and> parse_entry_size out 1 = fw_size (r_ex ! 1)
           \<and> fw_crc (set_crcs (copy_data r_ex (replicate (nat 0xC4) 0x00)) r_ex ! 1)
                = Some (parse_entry_crc out 1))"
proof -
  have a: "1 < length r_ex" by (simp add: r_ex_def)
  show ?thesis
    using headers_round_trip [OF merge_ex gather_ex' a] merge_ex gather_ex' a by blast
qed



text \<open>
  C6, as stated: every reserved or unspecified region of an entry header, the bytes between
  the vendor id and the product id included, is filled with \<open>0xFF\<close>. The header starts as
  80 zero bytes and only the region from \<open>0x40\<close> is filled with \<open>0xFF\<close>: the bytes
  \<open>0x02\<close> to \<open>0x21\<close> stay zero.
\<close>

theorem elan_header_zero_gap_counterexample:
  "generate_elan_header 0xC0 4 0xFBAB0A09 = Inr hdr_ex
   \<and> hdr_ex ! 0x02 = 0x00 \<and> hdr_ex ! 0x02 \<noteq> 0xFF
   \<and> get_slice hdr_ex 0x02 0x22 \<noteq> replicate 0x20 0xFF"
proof -
  have "hdr_ex ! 0x02 = 0x00" by (simp add: hdr_ex_def)
  moreover have "get_slice hdr_ex 0x02 0x22 \<noteq> replicate 0x20 0xFF" by code_simp
  ultimately show ?thesis using generate_elan_header_ex by simp
qed

text \<open>
  C6, amended: an entry header has 80 bytes; the vendor id, the firmware version stub, the
  data offset, the data size and the checksum are little-endian; the product id is the bytes
  \<open>0x08, 0x56\<close>; the unique id and the reserved region \<open>0x40\<close> to \<open>0x4F\<close> are filled
  with \<open>0xFF\<close>; the bytes \<open>0x02\<close> to \<open>0x21\<close> between the vendor id and the product id,
  and the 12 padding bytes \<open>0x34\<close> to \<open>0x3F\<close> of the checksum, are zero.
\<close>

theorem elan_header_layout:
  assumes "generate_elan_header fo fs c = Inr h"
  shows "length h = 0x50
         \<and> unpack_le (get_slice h 0x00 0x02) = ELAN_VENDOR_ID
         \<and> get_slice h 0x02 0x22 = replicate 0x20 0x00
         \<and> get_slice h 0x22 0x24 = ELAN_PRODUCT_ID
         \<and> get_slice h 0x24 0x26 = [0xFF, 0xFF]
         \<and> unpack_le (get_slice h 0x26 0x28) = 0x1234
         \<and> unpack_le (get_slice h 0x28 0x2C) = fo
         \<and> unpack_le (get_slice h 0x2C 0x30) = fs
         \<and> unpack_le (get_slice h 0x30 0x34) = c
         \<and> get_slice h 0x34 0x40 = replicate 12 0x00
         \<and> get_slice h 0x40 0x50 = replicate 16 0xFF"
proof -
  have l: "length h = 0x50" by (rule length_generate_elan_header [OF assms])
  have g: "get_slice h (numeral a) (numeral b)
             = take (numeral b - numeral a) (drop (numeral a) h)"
    if "(numeral a :: nat) \<le> 0x50" "(numeral b :: nat) \<le> 0x50" for a b
    using that by (simp add: get_slice_const l)
  have g0: "get_slice h 0x00 0x02 = take 2 h"
    by (simp add: get_slice_0 l)
  from assms obtain a0 a1 a2 a3 s0 s1 s2 s3 c0 c1 c2 c3 where
    h: "take 2 h = [0xF3, 0x04]"
      "take (0x22 - 0x02) (drop 0x02 h) = replicate 0x20 0x00"
      "take (0x24 - 0x22) (drop 0x22 h) = [0x08, 0x56]"
      "take (0x26 - 0x24) (drop 0x24 h) = [0xFF, 0xFF]"
      "take (0x28 - 0x26) (drop 0x26 h) = [0x34, 0x12]"
      "take (0x40 - 0x34) (drop 0x34 h) = replicate 12 0x00"
      "take (0x50 - 0x40) (drop 0x40 h) = replicate 16 0xFF"
    by (rule generate_elan_header_cases) (simp add: numeral_eq_Suc)
  have f: "unpack_le (take (0x2C - 0x28) (drop 0x28 h)) = fo"
    "unpack_le (take (0x30 - 0x2C) (drop 0x2C h)) = fs"
    "unpack_le (take (0x34 - 0x30) (drop 0x30 h)) = c"
    using entry_fields [OF assms] by simp_all
  show ?thesis
    unfolding g0
    by (simp only: l g h f) (simp add: ELAN_VENDOR_ID_def ELAN_PRODUCT_ID_def)
qed

theorem elan_header_layout_witness:
  "generate_elan_header 0xC0 4 0xFBAB0A09 = Inr hdr_ex
   \<and> length hdr_ex = 0x50
   \<and> unpack_le (get_slice hdr_ex 0x00 0x02) = ELAN_VENDOR_ID
   \<and> get_slice hdr_ex 0x02 0x22 = replicate 0x20 0x00
   \<and> get_slice hdr_ex 0x22 0x24 = ELAN_PRODUCT_ID
   \<and> get_slice hdr_ex 0x24 0x26 = [0xFF, 0xFF]
   \<and> unpack_le (get_slice hdr_ex 0x26 0x28) = 0x1234
   \<and> unpack_le (get_slice hdr_ex 0x28 0x2C) = 0xC0
   \<and> unpack_le (get_slice hdr_ex 0x2C 0x30) = 4
   \<and> unpack_le (get_slice hdr_ex 0x30 0x34) = 0xFBAB0A09
   \<and> get_slice hdr_ex 0x34 0x40 = replicate 12 0x00
   \<and> get_slice hdr_ex 0x40 0x50 = replicate 16 0xFF"
  using elan_header_layout [OF generate_elan_header_ex] generate_elan_header_ex by blast

end
